(* ===== verification/Prelude.thy ===== *)
theory Prelude
  imports Main "HOL-Library.AList" "HOL-Library.Sublist"
begin

text \<open>
  Shared vocabulary of the development: the machine integers, strings and maps of the Go
  sources, the few functions of the Go standard library that the sources call, and the
  generic notion of a state machine with an invariant that every component instantiates.
\<close>

section \<open>Machine integers\<close>

text \<open>
  Go's \<open>int32\<close> and \<open>int64\<close> are two's complement. A value is an \<^typ>\<open>int\<close>; the result of an
  arithmetic operation is wrapped by \<open>i32\<close> or \<open>i64\<close>, so that an overflow is visible.
  \<open>int\<close> is 64 bits wide on every platform the program is built for.
\<close>

definition i32 :: "int \<Rightarrow> int" where
  "i32 x = (x + 2 ^ 31) mod 2 ^ 32 - 2 ^ 31"

definition i64 :: "int \<Rightarrow> int" where
  "i64 x = (x + 2 ^ 63) mod 2 ^ 64 - 2 ^ 63"

definition in_int32 :: "int \<Rightarrow> bool" where
  "in_int32 x \<longleftrightarrow> - (2 ^ 31) \<le> x \<and> x < 2 ^ 31"

definition in_int64 :: "int \<Rightarrow> bool" where
  "in_int64 x \<longleftrightarrow> - (2 ^ 63) \<le> x \<and> x < 2 ^ 63"

lemma i32_id: "in_int32 x \<Longrightarrow> i32 x = x"
  by (simp add: i32_def in_int32_def)

lemma i64_id: "in_int64 x \<Longrightarrow> i64 x = x"
  by (simp add: i64_def in_int64_def)

lemma in_int32_i32 [simp]: "in_int32 (i32 x)"
  by (simp add: i32_def in_int32_def)

lemma in_int64_i64 [simp]: "in_int64 (i64 x)"
  by (simp add: i64_def in_int64_def)

lemma i64_succ: "in_int64 x \<Longrightarrow> x \<noteq> 2 ^ 63 - 1 \<Longrightarrow> i64 (x + 1) = x + 1"
  by (rule i64_id) (auto simp: in_int64_def)

text \<open>Go's remainder takes the sign of the dividend.\<close>

definition go_rem :: "int \<Rightarrow> int \<Rightarrow> int" where
  "go_rem a b = sgn a * (\<bar>a\<bar> mod \<bar>b\<bar>)"

lemma go_rem_nonneg: "0 \<le> a \<Longrightarrow> 0 < b \<Longrightarrow> go_rem a b = a mod b"
  by (cases "a = 0") (auto simp: go_rem_def)

text \<open>Durations are in nanoseconds.\<close>

definition second :: int where "second = 1000000000"

section \<open>Go maps\<close>

text \<open>
  A Go map that is only looked up is a partial function. A Go map that the code ranges over
  is an association list with distinct keys: the list order stands for the order of one
  \<open>range\<close> loop, which the language leaves open.
\<close>

type_synonym ('k, 'v) gomap = "('k \<times> 'v) list"

abbreviation gm_ok :: "('k, 'v) gomap \<Rightarrow> bool" where
  "gm_ok m \<equiv> distinct (map fst m)"

abbreviation gm_get :: "('k, 'v) gomap \<Rightarrow> 'k \<Rightarrow> 'v option" where
  "gm_get m k \<equiv> map_of m k"

abbreviation gm_set :: "'k \<Rightarrow> 'v \<Rightarrow> ('k, 'v) gomap \<Rightarrow> ('k, 'v) gomap" where
  "gm_set k v m \<equiv> AList.update k v m"

abbreviation gm_del :: "'k \<Rightarrow> ('k, 'v) gomap \<Rightarrow> ('k, 'v) gomap" where
  "gm_del k m \<equiv> AList.delete k m"

abbreviation gm_keys :: "('k, 'v) gomap \<Rightarrow> 'k list" where
  "gm_keys m \<equiv> map fst m"

declare map_of_eq_Some_iff [simp del] Some_eq_map_of_iff [simp del]

lemma gm_get_set [simp]: "gm_get (gm_set k v m) = (gm_get m)(k \<mapsto> v)"
  by (rule update_conv')

lemma gm_get_del [simp]: "gm_get (gm_del k m) = (gm_get m)(k := None)"
  by (rule delete_conv')

lemma gm_ok_set [simp]: "gm_ok m \<Longrightarrow> gm_ok (gm_set k v m)"
  by (rule distinct_update)

lemma gm_ok_del [simp]: "gm_ok m \<Longrightarrow> gm_ok (gm_del k m)"
  by (rule distinct_delete)

lemma gm_keys_iff: "k \<in> set (gm_keys m) \<longleftrightarrow> gm_get m k \<noteq> None"
  by (simp add: map_of_eq_None_iff)



text \<open>Two maps that are inverse to each other, as an index and its reverse are.\<close>

definition inverse_maps :: "('a \<rightharpoonup> 'b) \<Rightarrow> ('b \<rightharpoonup> 'a) \<Rightarrow> bool" where
  "inverse_maps m u \<longleftrightarrow> (\<forall>k p. m k = Some p \<longleftrightarrow> u p = Some k)"

lemma inverse_mapsD:
  "inverse_maps m u \<Longrightarrow> m k = Some p \<Longrightarrow> u p = Some k"
  "inverse_maps m u \<Longrightarrow> u p = Some k \<Longrightarrow> m k = Some p"
  by (simp_all add: inverse_maps_def)

lemma inverse_maps_inj:
  "inverse_maps m u \<Longrightarrow> m k = Some p \<Longrightarrow> m k' = Some p \<Longrightarrow> k = k'"
  using inverse_mapsD(1) [of m u k p] inverse_mapsD(1) [of m u k' p] by simp

lemma inverse_maps_empty: "inverse_maps Map.empty Map.empty"
  by (simp add: inverse_maps_def)

lemma inverse_maps_insert:
  assumes i: "inverse_maps m u" and "m k = None" "u p = None"
  shows "inverse_maps (m(k \<mapsto> p)) (u(p \<mapsto> k))"
proof -
  have "u p' \<noteq> Some k" for p'
    using inverse_mapsD(2) [OF i, of p' k] assms(2) by auto
  moreover have "m k' \<noteq> Some p" for k'
    using inverse_mapsD(1) [OF i, of k' p] assms(3) by auto
  ultimately show ?thesis
    using i by (simp add: inverse_maps_def)
qed

lemma inverse_maps_delete:
  assumes i: "inverse_maps m u" and "m k = Some p"
  shows "inverse_maps (m(k := None)) (u(p := None))"
proof -
  have up: "u p = Some k" by (rule inverse_mapsD(1) [OF i assms(2)])
  have "(m(k := None)) k' = Some p' \<longleftrightarrow> (u(p := None)) p' = Some k'" for k' p'
  proof (cases "k' = k \<or> p' = p")
    case True
    then show ?thesis
      using inverse_mapsD(1) [OF i, of k' p'] inverse_mapsD(2) [OF i, of p' k'] up assms(2)
      by (cases "k' = k"; cases "p' = p") auto
  next
    case False
    then show ?thesis
      using inverse_mapsD(1) [OF i, of k' p'] inverse_mapsD(2) [OF i, of p' k'] by auto
  qed
  then show ?thesis unfolding inverse_maps_def by blast
qed

section \<open>State machines\<close>

text \<open>
  A component that runs for ever is a predicate for its initial states and a step relation.
  Its reachable states are the least set that holds the former and is closed under the latter.
\<close>

inductive reach :: "('s \<Rightarrow> bool) \<Rightarrow> ('s \<Rightarrow> 's \<Rightarrow> bool) \<Rightarrow> 's \<Rightarrow> bool"
  for init :: "'s \<Rightarrow> bool" and step :: "'s \<Rightarrow> 's \<Rightarrow> bool" where
  reach_init: "init s \<Longrightarrow> reach init step s"
| reach_step: "reach init step s \<Longrightarrow> step s t \<Longrightarrow> reach init step t"

text \<open>The contract of an invariant: it holds at the start and every step keeps it.\<close>

locale state_machine =
  fixes init :: "'s \<Rightarrow> bool"
    and step :: "'s \<Rightarrow> 's \<Rightarrow> bool"
    and inv :: "'s \<Rightarrow> bool"
  assumes inv_init: "init s \<Longrightarrow> inv s"
    and inv_step: "inv s \<Longrightarrow> step s t \<Longrightarrow> inv t"
begin

lemma reach_inv: "reach init step s \<Longrightarrow> inv s"
  by (induction rule: reach.induct) (auto intro: inv_init inv_step)

lemma inv_steps: "inv s \<Longrightarrow> step\<^sup>*\<^sup>* s t \<Longrightarrow> inv t"
  by (erule rtranclp_induct) (auto intro: inv_step)

end

text \<open>
  Where a step is the execution of an event, a run is given by its events: \<open>exec\<close> says what an
  event makes of a state, \<^const>\<open>None\<close> if it is not possible there.
\<close>

fun run_events :: "('e \<Rightarrow> 's \<Rightarrow> 's option) \<Rightarrow> 'e list \<Rightarrow> 's \<Rightarrow> 's option" where
  "run_events exec [] s = Some s"
| "run_events exec (e # es) s = (case exec e s of None \<Rightarrow> None | Some t \<Rightarrow> run_events exec es t)"

lemma run_events_reach:
  assumes "\<And>e s t. exec e s = Some t \<Longrightarrow> step s t"
  shows "reach init step s \<Longrightarrow> run_events exec es s = Some t \<Longrightarrow> reach init step t"
proof (induction es arbitrary: s)
  case (Cons e es)
  then obtain u where u: "exec e s = Some u" "run_events exec es u = Some t"
    by (auto split: option.splits)
  show ?case by (rule Cons.IH [OF reach_step [OF Cons.prems(1) assms [OF u(1)]] u(2)])
qed simp

section \<open>Loops that stop at the first error\<close>

text \<open>
  \<open>for _, x := range xs { if err := f(x); err != nil { return err } }\<close> with the state that
  \<open>f\<close> changes threaded through.
\<close>

fun for_each :: "('x \<Rightarrow> 's \<Rightarrow> ('e + unit) \<times> 's) \<Rightarrow> 'x list \<Rightarrow> 's \<Rightarrow> ('e + unit) \<times> 's" where
  "for_each f [] s = (Inr (), s)"
| "for_each f (x # xs) s =
     (case f x s of (Inl e, t) \<Rightarrow> (Inl e, t) | (Inr _, t) \<Rightarrow> for_each f xs t)"

lemma for_each_inv:
  assumes "\<And>x s r t. I s \<Longrightarrow> f x s = (r, t) \<Longrightarrow> I t"
  shows "I s \<Longrightarrow> for_each f xs s = (r, t) \<Longrightarrow> I t"
proof (induction xs arbitrary: s)
  case (Cons x xs)
  obtain q u where q: "f x s = (q, u)" by force
  with assms Cons.prems(1) have "I u" by blast
  with Cons q show ?case by (auto split: sum.splits)
qed simp

lemma for_each_append:
  "for_each f (xs @ ys) s =
     (case for_each f xs s of (Inl e, t) \<Rightarrow> (Inl e, t) | (Inr _, t) \<Rightarrow> for_each f ys t)"
  by (induction xs arbitrary: s) (auto split: prod.split sum.split)

text \<open>A loop that finishes did every step without an error.\<close>

lemma for_each_Inr_rel:
  assumes "\<And>x s t. x \<in> set xs \<Longrightarrow> I s \<Longrightarrow> f x s = (Inr (), t) \<Longrightarrow> I t \<and> v t = g x (v s)"
  shows "I s \<Longrightarrow> for_each f xs s = (Inr (), t) \<Longrightarrow> I t \<and> v t = fold g xs (v s)"
  using assms
proof (induction xs arbitrary: s)
  case (Cons x xs)
  obtain u where u: "f x s = (Inr (), u)" "for_each f xs u = (Inr (), t)"
    using Cons.prems(2) by (auto split: prod.splits sum.splits)
  have "I u \<and> v u = g x (v s)" using Cons.prems(3) [of x s u] Cons.prems(1) u(1) by simp
  moreover have "I t \<and> v t = fold g xs (v u)" if "I u"
    using that u(2) by (rule Cons.IH) (rule Cons.prems(3); simp)
  ultimately show ?case by simp
qed simp

end
