(* ===== verification/Go_Strings.thy ===== *)
theory Go_Strings
  imports Prelude
begin

text \<open>
  The functions of Go's \<open>strings\<close>, \<open>strconv\<close> and \<open>net\<close> packages that the sources use on
  strings: trimming, lower-casing, decimal printing and parsing, and joining a host and a
  port. A Go string is a sequence of bytes, as is \<^typ>\<open>string\<close>.
\<close>

section \<open>strings.TrimSpace and strings.ToLower\<close>

text \<open>The UTF-8 encodings of the code points with Unicode's property White\_Space.\<close>

definition space_encodings :: "string list" where
  "space_encodings =
     [[CHR 0x20], [CHR 0x09], [CHR 0x0A], [CHR 0x0B], [CHR 0x0C], [CHR 0x0D],
      [CHR 0xC2, CHR 0x85], [CHR 0xC2, CHR 0xA0], [CHR 0xE1, CHR 0x9A, CHR 0x80]] @
     map (\<lambda>b. [CHR 0xE2, CHR 0x80, b])
       [CHR 0x80, CHR 0x81, CHR 0x82, CHR 0x83, CHR 0x84, CHR 0x85, CHR 0x86, CHR 0x87,
        CHR 0x88, CHR 0x89, CHR 0x8A, CHR 0xA8, CHR 0xA9, CHR 0xAF] @
     [[CHR 0xE2, CHR 0x81, CHR 0x9F], [CHR 0xE3, CHR 0x80, CHR 0x80]]"

lemma find_pred: "find P xs = Some x \<Longrightarrow> P x"
  by (auto simp: find_Some_iff)

function trim_start :: "string list \<Rightarrow> string \<Rightarrow> string" where
  "trim_start ws s =
     (case find (\<lambda>w. w \<noteq> [] \<and> take (length w) s = w) ws of
        None \<Rightarrow> s
      | Some w \<Rightarrow> trim_start ws (drop (length w) s))"
  by pat_completeness auto
termination
proof (relation "measure (\<lambda>(ws, s). length s)", goal_cases)
  case (2 ws s w)
  then have "w \<noteq> []" "take (length w) s = w"
    using find_pred [of "\<lambda>w. w \<noteq> [] \<and> take (length w) s = w" ws w] by auto
  then have "s \<noteq> []" by (cases s) auto
  with \<open>w \<noteq> []\<close> show ?case by simp
qed simp

declare trim_start.simps [simp del]

definition TrimSpace :: "string \<Rightarrow> string" where
  "TrimSpace s =
     rev (trim_start (map rev space_encodings) (rev (trim_start space_encodings s)))"

text \<open>
  Lower-casing maps the ASCII capitals; of the other code points exactly U+0130 and U+212A
  become ASCII letters. The rest stay outside ASCII, which no caller here can tell apart.
\<close>

definition ascii_lower :: "char \<Rightarrow> char" where
  "ascii_lower c = (if 65 \<le> (of_char c :: nat) \<and> (of_char c :: nat) \<le> 90
     then char_of ((of_char c :: nat) + 32) else c)"

fun ToLower :: "string \<Rightarrow> string" where
  "ToLower [] = []"
| "ToLower (c # cs) =
     (if c = CHR 0xC4 \<and> take 1 cs = [CHR 0xB0] then CHR ''i'' # ToLower (drop 1 cs)
      else if c = CHR 0xE2 \<and> take 2 cs = [CHR 0x84, CHR 0xAA] then CHR ''k'' # ToLower (drop 2 cs)
      else ascii_lower c # ToLower cs)"

section \<open>strconv.Itoa and strconv.ParseInt\<close>

definition digit_char :: "nat \<Rightarrow> char" where
  "digit_char d = ''0123456789'' ! d"

fun nat_digits :: "nat \<Rightarrow> string" where
  "nat_digits n = (if n < 10 then [digit_char n] else nat_digits (n div 10) @ [digit_char (n mod 10)])"

declare nat_digits.simps [simp del]

definition Itoa :: "int \<Rightarrow> string" where
  "Itoa i = (if i < 0 then CHR ''-'' # nat_digits (nat (- i)) else nat_digits (nat i))"

definition digit_val :: "char \<Rightarrow> nat option" where
  "digit_val c = (let b = (of_char c :: nat) in if 48 \<le> b \<and> b \<le> 57 then Some (b - 48) else None)"

fun parse_digits :: "nat \<Rightarrow> string \<Rightarrow> nat option" where
  "parse_digits acc [] = Some acc"
| "parse_digits acc (c # cs) =
     (case digit_val c of None \<Rightarrow> None | Some d \<Rightarrow> parse_digits (10 * acc + d) cs)"

text \<open>
  \<open>strconv.ParseInt(s, 10, bits)\<close>: an optional sign, at least one digit, digits only, and a
  value that \<open>bits\<close> bits hold. Both error kinds (syntax and range) are \<^const>\<open>None\<close>.
\<close>

definition ParseInt :: "nat \<Rightarrow> string \<Rightarrow> int option" where
  "ParseInt bits s =
     (let neg = (take 1 s = ''-'');
          body = (if take 1 s = ''-'' \<or> take 1 s = ''+'' then drop 1 s else s)
      in if body = [] then None
         else case parse_digits 0 body of
             None \<Rightarrow> None
           | Some un \<Rightarrow>
               if \<not> neg \<and> un \<ge> 2 ^ (bits - 1) then None
               else if neg \<and> un > 2 ^ (bits - 1) then None
               else Some (if neg then - int un else int un))"

section \<open>net.JoinHostPort\<close>

definition JoinHostPort :: "string \<Rightarrow> string \<Rightarrow> string" where
  "JoinHostPort host port =
     (if CHR '':'' \<in> set host then ''['' @ host @ '']:'' @ port else host @ '':'' @ port)"

section \<open>Lemmas\<close>

lemma trim_start_Nil [simp]: "trim_start ws [] = []"
  by (subst trim_start.simps) (auto split: option.split dest!: find_pred)

lemma TrimSpace_Nil [simp]: "TrimSpace [] = []"
  by (simp add: TrimSpace_def)

lemma digit_cases:
  "d < 10 \<Longrightarrow> d = 0 \<or> d = 1 \<or> d = 2 \<or> d = 3 \<or> d = 4 \<or> d = 5 \<or> d = 6 \<or> d = 7 \<or> d = 8 \<or> d = (9::nat)"
  by arith

lemma digit_val_char: "d < 10 \<Longrightarrow> digit_val (digit_char d) = Some d"
  by (drule digit_cases) (elim disjE; simp add: digit_val_def digit_char_def)

lemma parse_digits_append:
  "parse_digits acc (xs @ ys) = Option.bind (parse_digits acc xs) (\<lambda>a. parse_digits a ys)"
  by (induction acc xs rule: parse_digits.induct) (auto split: option.split)

lemma parse_nat_digits: "parse_digits 0 (nat_digits n) = Some n"
proof (induction n rule: nat_digits.induct)
  case (1 n)
  show ?case
  proof (cases "n < 10")
    case True
    then show ?thesis by (simp add: nat_digits.simps [of n] digit_val_char)
  next
    case False
    with "1.IH" show ?thesis
      by (simp add: nat_digits.simps [of n] parse_digits_append digit_val_char)
  qed
qed

lemma nat_digits_set: "c \<in> set (nat_digits n) \<Longrightarrow> \<exists>d<10. c = digit_char d"
proof (induction n rule: nat_digits.induct)
  case (1 n)
  then show ?case
    by (cases "n < 10") (auto simp: nat_digits.simps [of n] intro: exI [of _ "n mod 10"])
qed

lemma nat_digits_nonempty [simp]: "nat_digits n \<noteq> []"
  by (subst nat_digits.simps) simp

lemma digit_char_not_punct:
  "d < 10 \<Longrightarrow> digit_char d \<noteq> CHR ''-'' \<and> digit_char d \<noteq> CHR ''+'' \<and> digit_char d \<noteq> CHR '':''"
  by (drule digit_cases) (elim disjE; simp add: digit_char_def)

lemma nat_digits_no_sign:
  "take 1 (nat_digits n) \<noteq> ''-''" "take 1 (nat_digits n) \<noteq> ''+''"
proof -
  obtain c cs where c: "nat_digits n = c # cs"
    by (cases "nat_digits n") auto
  then obtain d where "d < 10" "c = digit_char d"
    using nat_digits_set [of c n] by auto
  then show "take 1 (nat_digits n) \<noteq> ''-''" "take 1 (nat_digits n) \<noteq> ''+''"
    using digit_char_not_punct [of d] c by auto
qed

lemma ParseInt_Itoa:
  assumes "- (2 ^ (bits - 1)) \<le> i" "i < 2 ^ (bits - 1)"
  shows "ParseInt bits (Itoa i) = Some i"
proof (cases "i < 0")
  case True
  have "nat (- i) \<le> 2 ^ (bits - 1)" using assms(1) by (simp add: nat_le_iff)
  with True show ?thesis
    by (simp add: ParseInt_def Itoa_def parse_nat_digits)
next
  case False
  have "nat i < 2 ^ (bits - 1)" using assms(2) False by (simp add: nat_less_iff)
  with False show ?thesis
    by (simp add: ParseInt_def Itoa_def parse_nat_digits nat_digits_no_sign [simplified])
qed

lemma Itoa_no_colon: "CHR '':'' \<notin> set (Itoa i)"
proof -
  have "CHR '':'' \<notin> set (nat_digits n)" for n
    using nat_digits_set [of "CHR '':''" n] digit_char_not_punct by metis
  then show ?thesis by (simp add: Itoa_def)
qed

lemma nat_digits_inject: "nat_digits m = nat_digits n \<Longrightarrow> m = n"
  by (metis parse_nat_digits option.inject)

lemma Itoa_inject [simp]: "Itoa i = Itoa j \<longleftrightarrow> i = j"
proof
  assume eq: "Itoa i = Itoa j"
  have sign: "i < 0 \<longleftrightarrow> j < 0"
    using eq nat_digits_no_sign(1) [of "nat i"] nat_digits_no_sign(1) [of "nat j"]
    by (auto simp: Itoa_def split: if_splits) (metis take_Suc_Cons take0 One_nat_def)+
  show "i = j"
  proof (cases "i < 0")
    case True
    with eq sign have "nat (- i) = nat (- j)"
      by (intro nat_digits_inject) (simp add: Itoa_def)
    with True sign show ?thesis by linarith
  next
    case False
    with eq sign have "nat i = nat j"
      by (intro nat_digits_inject) (simp add: Itoa_def)
    with False sign show ?thesis by linarith
  qed
qed simp

text \<open>Joining is injective on decimal ports: the text after the last colon is the port.\<close>

lemma append_first_sep:
  "us @ x # as = vs @ x # bs \<Longrightarrow> x \<notin> set us \<Longrightarrow> x \<notin> set vs \<Longrightarrow> us = vs \<and> as = bs"
proof (induction us arbitrary: vs)
  case Nil
  then show ?case by (cases vs) auto
next
  case (Cons u us)
  then show ?case by (cases vs) auto
qed

lemma append_last_sep:
  assumes "xs @ x # p = ys @ x # q" and "x \<notin> set p" "x \<notin> set q"
  shows "xs = ys \<and> p = q"
proof -
  have "rev p @ x # rev xs = rev q @ x # rev ys"
    using arg_cong [OF assms(1), of rev] by simp
  with assms(2,3) have "rev p = rev q \<and> rev xs = rev ys"
    by (intro append_first_sep) auto
  then show ?thesis by simp
qed

lemma JoinHostPort_inject:
  assumes "JoinHostPort h (Itoa p) = JoinHostPort h' (Itoa p')"
  shows "h = h' \<and> p = p'"
proof -
  let ?w = "\<lambda>h. if CHR '':'' \<in> set h then ''['' @ h @ '']'' else h"
  have w: "JoinHostPort g (Itoa q) = ?w g @ CHR '':'' # Itoa q" for g q
    by (simp add: JoinHostPort_def)
  have "?w h = ?w h' \<and> Itoa p = Itoa p'"
    by (rule append_last_sep [OF assms [unfolded w]]) (rule Itoa_no_colon)+
  then show ?thesis by (auto split: if_splits)
qed

section \<open>Texts without blanks around them\<close>

lemma trim_start_id:
  assumes "\<And>w. w \<in> set ws \<Longrightarrow> w \<noteq> [] \<Longrightarrow> s \<noteq> [] \<Longrightarrow> hd w \<noteq> hd s"
  shows "trim_start ws s = s"
proof -
  have "find (\<lambda>w. w \<noteq> [] \<and> take (length w) s = w) ws = None"
    unfolding find_None_iff
  proof (intro notI, elim exE conjE)
    fix w assume w: "w \<in> set ws" "w \<noteq> []" "take (length w) s = w"
    from w(2) obtain c w' where c: "w = c # w'" by (cases w) simp_all
    with w(3) obtain s' where "s = c # s'" by (cases s) simp_all
    then have "s \<noteq> []" "hd w = hd s" using c by simp_all
    with assms [OF w(1,2)] show False by simp
  qed
  then show ?thesis by (subst trim_start.simps) simp
qed

definition space_bytes :: "char list" where
  "space_bytes = map hd space_encodings @ map last space_encodings"

lemma TrimSpace_id:
  assumes "s = [] \<or> hd s \<notin> set space_bytes \<and> last s \<notin> set space_bytes"
  shows "TrimSpace s = s"
proof -
  have bytes: "hd w \<in> set space_bytes" "last w \<in> set space_bytes" if "w \<in> set space_encodings" for w
    using that by (auto simp only: space_bytes_def set_append set_map)
  have "trim_start space_encodings s = s"
  proof (rule trim_start_id)
    fix w assume "w \<in> set space_encodings" "s \<noteq> []"
    with bytes(1) [of w] assms show "hd w \<noteq> hd s" by metis
  qed
  moreover have "trim_start (map rev space_encodings) (rev s) = rev s"
  proof (rule trim_start_id)
    fix w assume w: "w \<in> set (map rev space_encodings)" "w \<noteq> []" "rev s \<noteq> []"
    then obtain v where v: "v \<in> set space_encodings" "w = rev v" by (auto simp only: set_map)
    with w(2,3) bytes(2) [OF v(1)] assms show "hd w \<noteq> hd (rev s)" by (metis hd_rev rev_is_Nil_conv)
  qed
  ultimately show ?thesis by (simp add: TrimSpace_def)
qed

lemma digit_not_space: "d < 10 \<Longrightarrow> digit_char d \<notin> set space_bytes"
proof -
  have "\<forall>d \<in> set [0..<10]. digit_char d \<notin> set space_bytes" by code_simp
  then show "d < 10 \<Longrightarrow> digit_char d \<notin> set space_bytes" by simp
qed

lemma TrimSpace_Itoa [simp]: "TrimSpace (Itoa i) = Itoa i"
proof (rule TrimSpace_id)
  have digits: "c \<notin> set space_bytes" if "c \<in> set (nat_digits n)" for c n
    using nat_digits_set [OF that] digit_not_space by auto
  have minus: "CHR ''-'' \<notin> set space_bytes" by code_simp
  have "hd (nat_digits n) \<notin> set space_bytes" "last (nat_digits n) \<notin> set space_bytes" for n
    using digits [OF hd_in_set] digits [OF last_in_set] by simp_all
  with minus show "Itoa i = [] \<or> hd (Itoa i) \<notin> set space_bytes \<and> last (Itoa i) \<notin> set space_bytes"
    by (simp add: Itoa_def)
qed

lemma Itoa_nonempty [simp]: "Itoa i \<noteq> []"
  by (simp add: Itoa_def)

end
