(* ===== verification/Tunnel_API.thy ===== *)
theory Tunnel_API
  imports Go_Strings
begin

text \<open>
  The \<open>Tunnel\<close> resource of \<open>api/v1alpha1/tunnel_types.go\<close>, the Kubernetes objects the operator
  creates or reads, and the interface of the Kubernetes client. The client is code of other
  repositories: it is a record of operations on an abstract cluster state, an argument of
  every definition that calls it.
\<close>

section \<open>The Tunnel resource\<close>

type_synonym TunnelPhase = string

definition TunnelPhasePending :: TunnelPhase where "TunnelPhasePending = ''Pending''"
definition TunnelPhaseProvisioning :: TunnelPhase where "TunnelPhaseProvisioning = ''Provisioning''"
definition TunnelPhaseReady :: TunnelPhase where "TunnelPhaseReady = ''Ready''"
definition TunnelPhaseConnected :: TunnelPhase where "TunnelPhaseConnected = ''Connected''"
definition TunnelPhaseFailed :: TunnelPhase where "TunnelPhaseFailed = ''Failed''"
definition TunnelPhaseTerminated :: TunnelPhase where "TunnelPhaseTerminated = ''Terminated''"

lemmas phase_defs =
  TunnelPhasePending_def TunnelPhaseProvisioning_def TunnelPhaseReady_def
  TunnelPhaseConnected_def TunnelPhaseFailed_def TunnelPhaseTerminated_def

lemma phases_distinct [simp]:
  "TunnelPhaseProvisioning \<noteq> TunnelPhaseReady" "TunnelPhaseReady \<noteq> TunnelPhaseProvisioning"
  "TunnelPhaseFailed \<noteq> TunnelPhaseReady" "TunnelPhaseTerminated \<noteq> TunnelPhaseReady"
  "TunnelPhaseReady \<noteq> TunnelPhaseFailed" "TunnelPhaseReady \<noteq> TunnelPhaseTerminated"
  "TunnelPhaseProvisioning \<noteq> TunnelPhaseFailed" "TunnelPhaseProvisioning \<noteq> TunnelPhaseTerminated"
  "TunnelPhaseFailed \<noteq> TunnelPhaseProvisioning" "TunnelPhaseTerminated \<noteq> TunnelPhaseProvisioning"
  "TunnelPhaseFailed \<noteq> TunnelPhaseTerminated" "TunnelPhaseTerminated \<noteq> TunnelPhaseFailed"
  by (simp_all add: phase_defs)

record LabelSelectorRequirement =
  lr_Key :: string
  lr_Operator :: string
  lr_Values :: "string list"

record TunnelTargetPodSelector =
  ps_MatchLabels :: "(string, string) gomap"
  ps_MatchExpressions :: "LabelSelectorRequirement list"

record TunnelTarget =
  tt_Host :: string
  tt_Port :: int
  tt_ResolvedIP :: string
  tt_PodSelector :: "TunnelTargetPodSelector option"

record TunnelSpec =
  ts_TeamSlug :: string
  ts_Target :: TunnelTarget
  ts_ClientPublicKey :: string
  ts_ActiveDeadlineSeconds :: "int option"

text \<open>\<open>Conditions\<close> is never read or written by the sources and is left out.\<close>

record TunnelStatus =
  Phase :: TunnelPhase
  GatewayPublicKey :: string
  ForwarderPort :: int
  ForwarderEndpoint :: string
  GatewayPodName :: string
  GatewayPodUID :: string
  GatewayPodIP :: string
  MappingRevision :: int
  Message :: string

text \<open>Of the object metadata, the fields the sources use.\<close>

record Tunnel =
  t_Name :: string
  t_Namespace :: string
  t_DeletionTimestamp :: "int option"
  t_Finalizers :: "string list"
  t_Spec :: TunnelSpec
  t_Status :: TunnelStatus

text \<open>\<open>metav1.Time.IsZero\<close>: a nil pointer or the zero time, encoded as 0.\<close>

definition IsZero :: "int option \<Rightarrow> bool" where
  "IsZero ts \<longleftrightarrow> (case ts of None \<Rightarrow> True | Some t \<Rightarrow> t = 0)"

text \<open>Updating the status of a tunnel.\<close>

abbreviation with_status :: "(TunnelStatus \<Rightarrow> TunnelStatus) \<Rightarrow> Tunnel \<Rightarrow> Tunnel" where
  "with_status f t \<equiv> t\<lparr>t_Status := f (t_Status t)\<rparr>"

section \<open>Pods, network policies and services\<close>

record PodSecurityContext =
  psc_RunAsNonRoot :: "bool option"
  psc_RunAsUser :: "int option"
  psc_SeccompProfileType :: string

record SecurityContext =
  sc_AllowPrivilegeEscalation :: "bool option"
  sc_RunAsNonRoot :: "bool option"
  sc_RunAsUser :: "int option"
  sc_ReadOnlyRootFilesystem :: "bool option"
  sc_SeccompProfileType :: string
  sc_CapabilitiesDrop :: "string list"

record ContainerPort =
  cp_Name :: string
  cp_ContainerPort :: int
  cp_Protocol :: string

record EnvVar =
  ev_Name :: string
  ev_Value :: string

record Probe =
  pr_HTTPGetPath :: string
  pr_HTTPGetPort :: int
  pr_PeriodSeconds :: int

record Container =
  ct_Name :: string
  ct_Image :: string
  ct_ImagePullPolicy :: string
  ct_Ports :: "ContainerPort list"
  ct_Env :: "EnvVar list"
  ct_ReadinessProbe :: Probe
  ct_SecurityContext :: SecurityContext

record PodSpec =
  pd_RestartPolicy :: string
  pd_ActiveDeadlineSeconds :: "int option"
  pd_SecurityContext :: PodSecurityContext
  pd_Containers :: "Container list"

record PodCondition =
  pc_Type :: string
  pc_Status :: string

record Pod =
  pod_Name :: string
  pod_Namespace :: string
  pod_UID :: string
  pod_Labels :: "(string, string) gomap"
  pod_Annotations :: "(string, string) gomap"
  pod_Owner :: "string option"
  pod_Spec :: PodSpec
  pod_Phase :: string
  pod_PodIP :: string
  pod_Conditions :: "PodCondition list"

record LabelSelector =
  ls_MatchLabels :: "(string, string) gomap"
  ls_MatchExpressions :: "LabelSelectorRequirement list"

datatype IntOrString = PortInt int | PortStr string

record NetworkPolicyPort =
  npp_Protocol :: "string option"
  npp_Port :: "IntOrString option"

record NetworkPolicyPeer =
  npr_PodSelector :: "LabelSelector option"
  npr_NamespaceSelector :: "LabelSelector option"
  npr_CIDR :: "string option"

text \<open>An ingress rule (peers are \<open>From\<close>) or an egress rule (peers are \<open>To\<close>).\<close>

record NetworkPolicyRule =
  nr_Peers :: "NetworkPolicyPeer list"
  nr_Ports :: "NetworkPolicyPort list"

record NetworkPolicySpec =
  ns_PodSelector :: LabelSelector
  ns_PolicyTypes :: "string list"
  ns_Ingress :: "NetworkPolicyRule list"
  ns_Egress :: "NetworkPolicyRule list"

record NetworkPolicy =
  np_Name :: string
  np_Namespace :: string
  np_Labels :: "(string, string) gomap"
  np_Owner :: "string option"
  np_Spec :: NetworkPolicySpec

text \<open>Of a service the sources read the load balancer's ingress addresses.\<close>

record Service =
  svc_IngressIPs :: "string list"

section \<open>The Kubernetes client\<close>

record ObjectKey =
  ok_Namespace :: string
  ok_Name :: string

datatype api_error = NotFound | ApiError string

definition IsNotFound :: "api_error \<Rightarrow> bool" where
  "IsNotFound e \<longleftrightarrow> e = NotFound"

text \<open>
  \<open>'w\<close> is the state of the cluster. \<open>Update\<close>, \<open>Create\<close> and \<open>Patch\<close> return the object as the
  server answered, which the client writes back into its argument. \<open>CreateOrUpdate\<close> takes the
  mutating function of its caller. The last five are the pure helpers of controller-runtime.
\<close>

record 'w KubeClient =
  kListTunnels :: "'w \<Rightarrow> (api_error + Tunnel list) \<times> 'w"
  kGetTunnel :: "ObjectKey \<Rightarrow> 'w \<Rightarrow> (api_error + Tunnel) \<times> 'w"
  kUpdateTunnel :: "Tunnel \<Rightarrow> 'w \<Rightarrow> (api_error + Tunnel) \<times> 'w"
  kPatchStatus :: "Tunnel \<Rightarrow> Tunnel \<Rightarrow> 'w \<Rightarrow> (api_error + Tunnel) \<times> 'w"
  kDeleteTunnel :: "Tunnel \<Rightarrow> 'w \<Rightarrow> api_error option \<times> 'w"
  kGetPod :: "ObjectKey \<Rightarrow> 'w \<Rightarrow> (api_error + Pod) \<times> 'w"
  kCreatePod :: "Pod \<Rightarrow> 'w \<Rightarrow> (api_error + Pod) \<times> 'w"
  kDeletePod :: "ObjectKey \<Rightarrow> 'w \<Rightarrow> api_error option \<times> 'w"
  kCreateOrUpdateNetworkPolicy ::
    "ObjectKey \<Rightarrow> (NetworkPolicy \<Rightarrow> string + NetworkPolicy) \<Rightarrow> 'w \<Rightarrow> string option \<times> 'w"
  kDeleteNetworkPolicy :: "ObjectKey \<Rightarrow> 'w \<Rightarrow> api_error option \<times> 'w"
  kGetService :: "ObjectKey \<Rightarrow> 'w \<Rightarrow> (api_error + Service) \<times> 'w"
  kContainsFinalizer :: "Tunnel \<Rightarrow> string \<Rightarrow> bool"
  kAddFinalizer :: "Tunnel \<Rightarrow> string \<Rightarrow> Tunnel"
  kRemoveFinalizer :: "Tunnel \<Rightarrow> string \<Rightarrow> Tunnel"
  kSetPodOwner :: "Tunnel \<Rightarrow> Pod \<Rightarrow> string + Pod"
  kSetNetworkPolicyOwner :: "Tunnel \<Rightarrow> NetworkPolicy \<Rightarrow> string + NetworkPolicy"

text \<open>\<open>tunnelKey\<close>, of both packages that have it: the namespace, a slash, the name.\<close>

definition tunnelKey :: "string \<Rightarrow> string \<Rightarrow> string" where
  "tunnelKey namespace name = namespace @ ''/'' @ name"

text \<open>A namespace is a DNS label and has no slash, so that the key determines the tunnel.\<close>

lemma tunnelKey_inject:
  assumes "tunnelKey ns n = tunnelKey ns' n'" and "CHR ''/'' \<notin> set ns" "CHR ''/'' \<notin> set ns'"
  shows "ns = ns' \<and> n = n'"
  using append_first_sep [of ns "CHR ''/''" n ns' n'] assms by (simp add: tunnelKey_def)

end
