(* ===== verification/Mem_Cluster.thy ===== *)
theory Mem_Cluster
  imports Tunnel_API
begin

text \<open>
  An executable cluster state with the documented behaviour of the Kubernetes client:
  objects by namespace and name, a status subresource that only \<open>Patch\<close> on it changes,
  finalizers that hold back a deletion, fresh identities for created pods. It instantiates
  the parameter \<^typ>\<open>'w KubeClient\<close> where a statement needs a concrete cluster.
\<close>

record cluster =
  cl_tunnels :: "(string \<times> string, Tunnel) gomap"
  cl_pods :: "(string \<times> string, Pod) gomap"
  cl_policies :: "(string \<times> string, NetworkPolicy) gomap"
  cl_services :: "(string \<times> string, Service) gomap"
  cl_nextUID :: nat

definition okey :: "ObjectKey \<Rightarrow> string \<times> string" where
  "okey k = (ok_Namespace k, ok_Name k)"

definition tkey :: "Tunnel \<Rightarrow> string \<times> string" where
  "tkey t = (t_Namespace t, t_Name t)"

definition lookup_obj :: "('k, 'v) gomap \<Rightarrow> 'k \<Rightarrow> 'w \<Rightarrow> (api_error + 'v) \<times> 'w" where
  "lookup_obj m k w = (case gm_get m k of None \<Rightarrow> (Inl NotFound, w) | Some v \<Rightarrow> (Inr v, w))"

text \<open>An object carries the name it is stored under.\<close>

definition named :: "string \<times> string \<Rightarrow> Tunnel \<Rightarrow> Tunnel" where
  "named k t = t\<lparr>t_Namespace := fst k, t_Name := snd k\<rparr>"

text \<open>A stored tunnel with nothing left to wait for disappears.\<close>

definition store_tunnel :: "Tunnel \<Rightarrow> cluster \<Rightarrow> cluster" where
  "store_tunnel t c =
     (if \<not> IsZero (t_DeletionTimestamp t) \<and> t_Finalizers t = []
      then c\<lparr>cl_tunnels := gm_del (tkey t) (cl_tunnels c)\<rparr>
      else c\<lparr>cl_tunnels := gm_set (tkey t) t (cl_tunnels c)\<rparr>)"

definition mem_update_tunnel :: "Tunnel \<Rightarrow> cluster \<Rightarrow> (api_error + Tunnel) \<times> cluster" where
  "mem_update_tunnel t c =
     (case gm_get (cl_tunnels c) (tkey t) of
        None \<Rightarrow> (Inl NotFound, c)
      | Some old \<Rightarrow> let new = t\<lparr>t_Status := t_Status old\<rparr> in (Inr new, store_tunnel new c))"

text \<open>A merge patch carries the fields in which the new status differs from the base.\<close>

definition merge_status :: "TunnelStatus \<Rightarrow> TunnelStatus \<Rightarrow> TunnelStatus \<Rightarrow> TunnelStatus" where
  "merge_status base new old =
     (let pick = (\<lambda>b n v. if b = n then v else n);
          pick' = (\<lambda>b n v :: int. if b = n then v else n)
      in \<lparr>Phase = pick (Phase base) (Phase new) (Phase old),
          GatewayPublicKey = pick (GatewayPublicKey base) (GatewayPublicKey new) (GatewayPublicKey old),
          ForwarderPort = pick' (ForwarderPort base) (ForwarderPort new) (ForwarderPort old),
          ForwarderEndpoint = pick (ForwarderEndpoint base) (ForwarderEndpoint new) (ForwarderEndpoint old),
          GatewayPodName = pick (GatewayPodName base) (GatewayPodName new) (GatewayPodName old),
          GatewayPodUID = pick (GatewayPodUID base) (GatewayPodUID new) (GatewayPodUID old),
          GatewayPodIP = pick (GatewayPodIP base) (GatewayPodIP new) (GatewayPodIP old),
          MappingRevision = pick' (MappingRevision base) (MappingRevision new) (MappingRevision old),
          Message = pick (Message base) (Message new) (Message old)\<rparr>)"

definition mem_patch_status :: "Tunnel \<Rightarrow> Tunnel \<Rightarrow> cluster \<Rightarrow> (api_error + Tunnel) \<times> cluster" where
  "mem_patch_status base t c =
     (case gm_get (cl_tunnels c) (tkey t) of
        None \<Rightarrow> (Inl NotFound, c)
      | Some old \<Rightarrow>
          let new = named (tkey t) (old\<lparr>t_Status := merge_status (t_Status base) (t_Status t) (t_Status old)\<rparr>)
          in (Inr new, c\<lparr>cl_tunnels := gm_set (tkey t) new (cl_tunnels c)\<rparr>))"

definition mem_delete_tunnel :: "Tunnel \<Rightarrow> cluster \<Rightarrow> api_error option \<times> cluster" where
  "mem_delete_tunnel t c =
     (case gm_get (cl_tunnels c) (tkey t) of
        None \<Rightarrow> (Some NotFound, c)
      | Some old \<Rightarrow>
          (None, store_tunnel (if IsZero (t_DeletionTimestamp old)
                               then old\<lparr>t_DeletionTimestamp := Some 1\<rparr> else old) c))"

definition mem_create_pod :: "Pod \<Rightarrow> cluster \<Rightarrow> (api_error + Pod) \<times> cluster" where
  "mem_create_pod p c =
     (let k = (pod_Namespace p, pod_Name p)
      in case gm_get (cl_pods c) k of
          Some _ \<Rightarrow> (Inl (ApiError ''AlreadyExists''), c)
        | None \<Rightarrow>
            let new = p\<lparr>pod_UID := ''uid-'' @ Itoa (int (cl_nextUID c)), pod_Phase := ''Pending'',
                        pod_PodIP := '''', pod_Conditions := []\<rparr>
            in (Inr new, c\<lparr>cl_pods := gm_set k new (cl_pods c), cl_nextUID := Suc (cl_nextUID c)\<rparr>))"

definition mem_delete :: "(string \<times> string, 'v) gomap \<Rightarrow> ObjectKey \<Rightarrow> api_error option" where
  "mem_delete m k = (case gm_get m (okey k) of None \<Rightarrow> Some NotFound | Some _ \<Rightarrow> None)"

definition empty_policy :: "ObjectKey \<Rightarrow> NetworkPolicy" where
  "empty_policy k = \<lparr>np_Name = ok_Name k, np_Namespace = ok_Namespace k, np_Labels = [], np_Owner = None,
     np_Spec = \<lparr>ns_PodSelector = \<lparr>ls_MatchLabels = [], ls_MatchExpressions = []\<rparr>,
       ns_PolicyTypes = [], ns_Ingress = [], ns_Egress = []\<rparr>\<rparr>"

definition mem_create_or_update_policy ::
  "ObjectKey \<Rightarrow> (NetworkPolicy \<Rightarrow> string + NetworkPolicy) \<Rightarrow> cluster \<Rightarrow> string option \<times> cluster" where
  "mem_create_or_update_policy k mutate c =
     (case mutate (case gm_get (cl_policies c) (okey k) of None \<Rightarrow> empty_policy k | Some p \<Rightarrow> p) of
        Inl e \<Rightarrow> (Some e, c)
      | Inr p \<Rightarrow> (None, c\<lparr>cl_policies := gm_set (okey k) p (cl_policies c)\<rparr>))"

definition mem_client :: "cluster KubeClient" where
  "mem_client =
     \<lparr>kListTunnels = (\<lambda>c. (Inr (map snd (cl_tunnels c)), c)),
      kGetTunnel = (\<lambda>k c. apfst (map_sum id (named (okey k))) (lookup_obj (cl_tunnels c) (okey k) c)),
      kUpdateTunnel = mem_update_tunnel,
      kPatchStatus = mem_patch_status,
      kDeleteTunnel = mem_delete_tunnel,
      kGetPod = (\<lambda>k c. lookup_obj (cl_pods c) (okey k) c),
      kCreatePod = mem_create_pod,
      kDeletePod = (\<lambda>k c. (mem_delete (cl_pods c) k, c\<lparr>cl_pods := gm_del (okey k) (cl_pods c)\<rparr>)),
      kCreateOrUpdateNetworkPolicy = mem_create_or_update_policy,
      kDeleteNetworkPolicy =
        (\<lambda>k c. (mem_delete (cl_policies c) k, c\<lparr>cl_policies := gm_del (okey k) (cl_policies c)\<rparr>)),
      kGetService = (\<lambda>k c. lookup_obj (cl_services c) (okey k) c),
      kContainsFinalizer = (\<lambda>t f. f \<in> set (t_Finalizers t)),
      kAddFinalizer = (\<lambda>t f. if f \<in> set (t_Finalizers t) then t
                             else t\<lparr>t_Finalizers := t_Finalizers t @ [f]\<rparr>),
      kRemoveFinalizer = (\<lambda>t f. t\<lparr>t_Finalizers := removeAll f (t_Finalizers t)\<rparr>),
      kSetPodOwner = (\<lambda>t p. Inr (p\<lparr>pod_Owner := Some (t_Name t)\<rparr>)),
      kSetNetworkPolicyOwner = (\<lambda>t p. Inr (p\<lparr>np_Owner := Some (t_Name t)\<rparr>))\<rparr>"

lemmas mem_defs =
  mem_client_def mem_update_tunnel_def mem_patch_status_def mem_delete_tunnel_def
  mem_create_pod_def mem_delete_def mem_create_or_update_policy_def store_tunnel_def
  lookup_obj_def okey_def tkey_def empty_policy_def named_def IsZero_def

section \<open>Sample objects\<close>

definition sample_status :: TunnelStatus where
  "sample_status = \<lparr>Phase = '''', GatewayPublicKey = '''', ForwarderPort = 0,
     ForwarderEndpoint = '''', GatewayPodName = '''', GatewayPodUID = '''', GatewayPodIP = '''',
     MappingRevision = 0, Message = ''''\<rparr>"

definition sample_target :: TunnelTarget where
  "sample_target = \<lparr>tt_Host = ''redis'', tt_Port = 6379, tt_ResolvedIP = ''10.0.0.10'',
     tt_PodSelector = None\<rparr>"

definition sample_tunnel :: Tunnel where
  "sample_tunnel = \<lparr>t_Name = ''a'', t_Namespace = ''ns'', t_DeletionTimestamp = None,
     t_Finalizers = [],
     t_Spec = \<lparr>ts_TeamSlug = ''team'', ts_Target = sample_target, ts_ClientPublicKey = ''ck'',
       ts_ActiveDeadlineSeconds = None\<rparr>,
     t_Status = sample_status\<rparr>"

definition serving_tunnel :: Tunnel where
  "serving_tunnel = with_status (\<lambda>s. s\<lparr>Phase := TunnelPhaseProvisioning, GatewayPublicKey := ''gk'',
     ForwarderPort := 5, GatewayPodName := ''tunnel-gateway-a'', GatewayPodUID := ''uid-0'',
     GatewayPodIP := ''10.1.0.4'', MappingRevision := 3\<rparr>) sample_tunnel"

definition sample_cluster :: "Tunnel list \<Rightarrow> cluster" where
  "sample_cluster ts = \<lparr>cl_tunnels = map (\<lambda>t. (tkey t, t)) ts, cl_pods = [], cl_policies = [],
     cl_services = [((''sys'', ''fwd''), \<lparr>svc_IngressIPs = ['''', ''1.2.3.4'']\<rparr>)], cl_nextUID = 0\<rparr>"

lemmas sample_defs =
  sample_status_def sample_target_def sample_tunnel_def serving_tunnel_def sample_cluster_def

end
