(* ===== verification/Gateway_Resources.thy ===== *)
theory Gateway_Resources
  imports Mem_Cluster
begin

text \<open>
  The objects the reconciler derives from a tunnel, the second half of
  \<open>internal/controller/tunnel_controller.go\<close>: the gateway pod with its environment, the
  network policy with its egress rule, the labels that tie them together, and the validation
  of the tunnel's target.
\<close>

section \<open>Names, labels and environment\<close>

definition finalizerName :: string where "finalizerName = ''tunnels.nais.io/cleanup''"

definition gatewayStatusPort :: int where "gatewayStatusPort = 8080"

definition gatewayResourceName :: "string \<Rightarrow> string" where
  "gatewayResourceName tunnelName = ''tunnel-gateway-'' @ tunnelName"

definition gatewayLabels :: "string \<Rightarrow> (string, string) gomap" where
  "gatewayLabels tunnelName =
     [(''app.kubernetes.io/managed-by'', ''tunnel-operator''),
      (''app.kubernetes.io/component'', ''tunnel-gateway''),
      (''tunnels.nais.io/tunnel'', tunnelName)]"

text \<open>\<open>os.Getenv\<close> is an argument.\<close>

definition gatewayEnv :: "(string \<Rightarrow> string) \<Rightarrow> Tunnel \<Rightarrow> EnvVar list" where
  "gatewayEnv getenv tunnel =
     (let spec = t_Spec tunnel; target = ts_Target spec;
          env = [\<lparr>ev_Name = ''TUNNEL_PEER_PUBLIC_KEY'', ev_Value = ts_ClientPublicKey spec\<rparr>,
                 \<lparr>ev_Name = ''TUNNEL_TARGET_HOST'', ev_Value = tt_Host target\<rparr>,
                 \<lparr>ev_Name = ''TUNNEL_TARGET_PORT'', ev_Value = Itoa (tt_Port target)\<rparr>,
                 \<lparr>ev_Name = ''TUNNEL_NAME'', ev_Value = t_Name tunnel\<rparr>,
                 \<lparr>ev_Name = ''TUNNEL_NAMESPACE'', ev_Value = t_Namespace tunnel\<rparr>,
                 \<lparr>ev_Name = ''LOG_LEVEL'', ev_Value = getenv ''LOG_LEVEL''\<rparr>]
      in if tt_ResolvedIP target \<noteq> ''''
         then env @ [\<lparr>ev_Name = ''TUNNEL_TARGET_IP'', ev_Value = tt_ResolvedIP target\<rparr>]
         else env)"

section \<open>The gateway pod\<close>

definition gatewayPodSpec :: "(string \<Rightarrow> string) \<Rightarrow> Tunnel \<Rightarrow> string \<Rightarrow> int \<Rightarrow> PodSpec" where
  "gatewayPodSpec getenv tunnel gatewayImage deadlineSeconds =
     \<lparr>pd_RestartPolicy = ''Never'',
      pd_ActiveDeadlineSeconds = Some deadlineSeconds,
      pd_SecurityContext = \<lparr>psc_RunAsNonRoot = Some True, psc_RunAsUser = Some 65532,
        psc_SeccompProfileType = ''RuntimeDefault''\<rparr>,
      pd_Containers =
        [\<lparr>ct_Name = ''gateway'', ct_Image = gatewayImage, ct_ImagePullPolicy = ''IfNotPresent'',
          ct_Ports =
            [\<lparr>cp_Name = ''status'', cp_ContainerPort = gatewayStatusPort, cp_Protocol = ''TCP''\<rparr>,
             \<lparr>cp_Name = ''metrics'', cp_ContainerPort = 8090, cp_Protocol = ''TCP''\<rparr>],
          ct_Env = gatewayEnv getenv tunnel,
          ct_ReadinessProbe = \<lparr>pr_HTTPGetPath = ''/status'', pr_HTTPGetPort = gatewayStatusPort,
            pr_PeriodSeconds = 1\<rparr>,
          ct_SecurityContext =
            \<lparr>sc_AllowPrivilegeEscalation = Some False, sc_RunAsNonRoot = Some True,
             sc_RunAsUser = Some 65532, sc_ReadOnlyRootFilesystem = Some True,
             sc_SeccompProfileType = ''RuntimeDefault'', sc_CapabilitiesDrop = [''ALL'']\<rparr>\<rparr>]\<rparr>"

section \<open>The network policy\<close>

definition intstrPtr :: "int \<Rightarrow> IntOrString option" where
  "intstrPtr i = Some (PortInt i)"

definition networkPolicyPodSelector :: "TunnelTargetPodSelector \<Rightarrow> LabelSelector" where
  "networkPolicyPodSelector selector =
     \<lparr>ls_MatchLabels = ps_MatchLabels selector, ls_MatchExpressions = ps_MatchExpressions selector\<rparr>"

definition targetEgressRule :: "TunnelTarget \<Rightarrow> NetworkPolicyRule" where
  "targetEgressRule target =
     (let peer = \<lparr>npr_PodSelector = None, npr_NamespaceSelector = None, npr_CIDR = None\<rparr>;
          peer1 = (case tt_PodSelector target of
                     Some sel \<Rightarrow> peer\<lparr>npr_PodSelector := Some (networkPolicyPodSelector sel)\<rparr>
                   | None \<Rightarrow> peer\<lparr>npr_CIDR := Some (tt_ResolvedIP target @ ''/32'')\<rparr>)
      in \<lparr>nr_Peers = [peer1],
          nr_Ports = [\<lparr>npp_Protocol = Some ''TCP'', npp_Port = intstrPtr (tt_Port target)\<rparr>]\<rparr>)"

text \<open>The mutating function that \<open>ensureNetworkPolicy\<close> gives to \<open>CreateOrUpdate\<close>, up to the owner.\<close>

definition networkPolicyFor :: "Tunnel \<Rightarrow> (string, string) gomap \<Rightarrow> NetworkPolicy \<Rightarrow> NetworkPolicy" where
  "networkPolicyFor tunnel labels networkPolicy =
     networkPolicy\<lparr>np_Labels := labels,
       np_Spec :=
         \<lparr>ns_PodSelector = \<lparr>ls_MatchLabels = [(''tunnels.nais.io/tunnel'', t_Name tunnel)],
            ls_MatchExpressions = []\<rparr>,
          ns_PolicyTypes = [''Ingress'', ''Egress''],
          ns_Ingress =
            [\<lparr>nr_Peers = [],
              nr_Ports = [\<lparr>npp_Protocol = Some ''UDP'', npp_Port = intstrPtr 51820\<rparr>,
                          \<lparr>npp_Protocol = Some ''TCP'', npp_Port = intstrPtr gatewayStatusPort\<rparr>]\<rparr>,
             \<lparr>nr_Peers =
                [\<lparr>npr_PodSelector = Some \<lparr>ls_MatchLabels = [(''app.kubernetes.io/name'', ''alloy'')],
                    ls_MatchExpressions = []\<rparr>,
                  npr_NamespaceSelector = Some \<lparr>ls_MatchLabels =
                    [(''kubernetes.io/metadata.name'', ''nais-system'')], ls_MatchExpressions = []\<rparr>,
                  npr_CIDR = None\<rparr>],
              nr_Ports = [\<lparr>npp_Protocol = Some ''TCP'', npp_Port = Some (PortStr ''metrics'')\<rparr>]\<rparr>],
          ns_Egress =
            [targetEgressRule (ts_Target (t_Spec tunnel)),
             \<lparr>nr_Peers = [], nr_Ports = [\<lparr>npp_Protocol = Some ''UDP'', npp_Port = None\<rparr>]\<rparr>]\<rparr>\<rparr>"

section \<open>Validation of the target\<close>

datatype target_error = ExactlyOneRequired | EmptyPodSelector

definition validateTunnelTarget :: "TunnelTarget \<Rightarrow> target_error option" where
  "validateTunnelTarget target =
     (let hasResolvedIP = (TrimSpace (tt_ResolvedIP target) \<noteq> '''');
          hasPodSelector = (tt_PodSelector target \<noteq> None)
      in if hasResolvedIP = hasPodSelector then Some ExactlyOneRequired
         else case tt_PodSelector target of
             Some sel \<Rightarrow>
               if ps_MatchLabels sel = [] \<and> ps_MatchExpressions sel = [] then Some EmptyPodSelector
               else None
           | None \<Rightarrow> None)"

definition isPodReady :: "Pod \<Rightarrow> bool" where
  "isPodReady pod =
     (case find (\<lambda>c. pc_Type c = ''Ready'') (pod_Conditions pod) of
        Some condition \<Rightarrow> pc_Status condition = ''True''
      | None \<Rightarrow> False)"

section \<open>What the policy admits\<close>

text \<open>
  The documented meaning of an egress policy: a flow is admitted when some rule has a matching
  peer (no peers match everything) and a matching port (no ports match everything). Membership
  in a CIDR block and the matching of a label selector are arguments.
\<close>

record flow =
  fl_Protocol :: string
  fl_Port :: int
  fl_DstIP :: string
  fl_DstPod :: "(string \<times> (string, string) gomap) option"

definition port_admits :: "NetworkPolicyPort \<Rightarrow> flow \<Rightarrow> bool" where
  "port_admits p f \<longleftrightarrow>
     (case npp_Protocol p of None \<Rightarrow> fl_Protocol f = ''TCP'' | Some pr \<Rightarrow> fl_Protocol f = pr) \<and>
     (case npp_Port p of None \<Rightarrow> True | Some (PortInt i) \<Rightarrow> fl_Port f = i | Some (PortStr _) \<Rightarrow> False)"

definition peer_admits ::
  "(string \<Rightarrow> string \<Rightarrow> bool) \<Rightarrow> (LabelSelector \<Rightarrow> (string, string) gomap \<Rightarrow> bool) \<Rightarrow> string \<Rightarrow>
   NetworkPolicyPeer \<Rightarrow> flow \<Rightarrow> bool" where
  "peer_admits in_cidr matches ns p f \<longleftrightarrow>
     (case npr_CIDR p of
        Some c \<Rightarrow> in_cidr c (fl_DstIP f)
      | None \<Rightarrow>
          (case (fl_DstPod f, npr_NamespaceSelector p, npr_PodSelector p) of
             (Some (dns, labels), None, Some sel) \<Rightarrow> dns = ns \<and> matches sel labels
           | _ \<Rightarrow> False))"

definition egress_admits ::
  "(string \<Rightarrow> string \<Rightarrow> bool) \<Rightarrow> (LabelSelector \<Rightarrow> (string, string) gomap \<Rightarrow> bool) \<Rightarrow>
   NetworkPolicy \<Rightarrow> flow \<Rightarrow> bool" where
  "egress_admits in_cidr matches np f \<longleftrightarrow>
     (\<exists>r \<in> set (ns_Egress (np_Spec np)).
        (nr_Peers r = [] \<or> (\<exists>p \<in> set (nr_Peers r). peer_admits in_cidr matches (np_Namespace np) p f)) \<and>
        (nr_Ports r = [] \<or> (\<exists>p \<in> set (nr_Ports r). port_admits p f)))"


lemma sample_target_valid [simp]: "validateTunnelTarget sample_target = None"
  by code_simp


text \<open>
  Validation accepts exactly the targets with one kind of destination: a resolved address
  that is not blank, or a pod selector with at least one requirement, and never both.
\<close>

lemma validateTunnelTarget_correct:
  "validateTunnelTarget target = None \<longleftrightarrow>
     (case tt_PodSelector target of
        None \<Rightarrow> TrimSpace (tt_ResolvedIP target) \<noteq> ''''
      | Some sel \<Rightarrow> TrimSpace (tt_ResolvedIP target) = '''' \<and>
                    (ps_MatchLabels sel, ps_MatchExpressions sel) \<noteq> ([], []))"
  by (auto simp: validateTunnelTarget_def Let_def split: option.splits)

end
