(* ===== verification/Proto.thy ===== *)
theory Proto
  imports Prelude
begin

text \<open>
  The messages of the configuration protocol, \<open>proto/forwarder/v1/forwarder.proto\<close>, as the
  generated Go structs of \<open>pkg/forwarder/proto/forwarder/v1/forwarder.pb.go\<close> hold them: every
  field is a pointer, \<^const>\<open>None\<close> when it is not set, and the getters supply the default,
  also for a nil message.
\<close>

text \<open>The enumeration is open: a peer may send a number this version does not know.\<close>

datatype UpdateType = ADDED | MODIFIED | DELETED | SYNC | UnknownUpdateType int

record TunnelMapping =
  tm_TunnelName :: "string option"
  tm_TunnelNamespace :: "string option"
  tm_ForwarderPort :: "int option"
  tm_GatewayAddress :: "string option"
  tm_Revision :: "int option"
  tm_GatewayPodUid :: "string option"
  tm_GatewayPodIp :: "string option"

record TunnelUpdate =
  tu_Type :: "UpdateType option"
  tu_Tunnel :: "TunnelMapping option"

record ForwarderConfig =
  fc_LbVip :: "string option"
  fc_Tunnels :: "TunnelMapping option list"

record AckRequest =
  ar_ForwarderId :: "string option"
  ar_TunnelName :: "string option"
  ar_TunnelNamespace :: "string option"
  ar_Revision :: "int option"

text \<open>A getter: the field of a message that is there and has it, else the default.\<close>

definition proto_get :: "('m \<Rightarrow> 'v option) \<Rightarrow> 'v \<Rightarrow> 'm option \<Rightarrow> 'v" where
  "proto_get f d x = (case Option.bind x f of Some v \<Rightarrow> v | None \<Rightarrow> d)"

definition GetTunnelName :: "TunnelMapping option \<Rightarrow> string" where
  "GetTunnelName x = proto_get tm_TunnelName '''' x"

definition GetTunnelNamespace :: "TunnelMapping option \<Rightarrow> string" where
  "GetTunnelNamespace x = proto_get tm_TunnelNamespace '''' x"

definition GetForwarderPort :: "TunnelMapping option \<Rightarrow> int" where
  "GetForwarderPort x = proto_get tm_ForwarderPort 0 x"

definition GetGatewayAddress :: "TunnelMapping option \<Rightarrow> string" where
  "GetGatewayAddress x = proto_get tm_GatewayAddress '''' x"

definition GetRevision :: "TunnelMapping option \<Rightarrow> int" where
  "GetRevision x = proto_get tm_Revision 0 x"

definition GetType :: "TunnelUpdate option \<Rightarrow> UpdateType" where
  "GetType x = proto_get tu_Type ADDED x"

definition GetTunnel :: "TunnelUpdate option \<Rightarrow> TunnelMapping option" where
  "GetTunnel x = Option.bind x tu_Tunnel"

definition GetLbVip :: "ForwarderConfig option \<Rightarrow> string" where
  "GetLbVip x = proto_get fc_LbVip '''' x"

definition GetTunnels :: "ForwarderConfig option \<Rightarrow> TunnelMapping option list" where
  "GetTunnels x = (case x of Some c \<Rightarrow> fc_Tunnels c | None \<Rightarrow> [])"

definition AckForwarderId :: "AckRequest option \<Rightarrow> string" where
  "AckForwarderId x = proto_get ar_ForwarderId '''' x"

definition AckTunnelName :: "AckRequest option \<Rightarrow> string" where
  "AckTunnelName x = proto_get ar_TunnelName '''' x"

definition AckTunnelNamespace :: "AckRequest option \<Rightarrow> string" where
  "AckTunnelNamespace x = proto_get ar_TunnelNamespace '''' x"

definition AckRevision :: "AckRequest option \<Rightarrow> int" where
  "AckRevision x = proto_get ar_Revision 0 x"

lemma proto_get_simps [simp]:
  "proto_get f d None = d"
  "f m = Some v \<Longrightarrow> proto_get f d (Some m) = v"
  "f m = None \<Longrightarrow> proto_get f d (Some m) = d"
  by (simp_all add: proto_get_def)

lemmas getter_defs =
  GetTunnelName_def GetTunnelNamespace_def GetForwarderPort_def GetGatewayAddress_def
  GetRevision_def GetType_def GetTunnel_def GetLbVip_def GetTunnels_def

lemmas ack_getter_defs =
  AckForwarderId_def AckTunnelName_def AckTunnelNamespace_def AckRevision_def

text \<open>A mapping with every field set, as the operator sends it.\<close>

definition full_mapping :: "string \<Rightarrow> string \<Rightarrow> int \<Rightarrow> string \<Rightarrow> int \<Rightarrow> string \<Rightarrow> string \<Rightarrow> TunnelMapping" where
  "full_mapping name ns port gw rv uid ip =
     \<lparr>tm_TunnelName = Some name, tm_TunnelNamespace = Some ns, tm_ForwarderPort = Some port,
      tm_GatewayAddress = Some gw, tm_Revision = Some rv, tm_GatewayPodUid = Some uid,
      tm_GatewayPodIp = Some ip\<rparr>"

lemma full_mapping_getters [simp]:
  "GetTunnelName (Some (full_mapping name ns port gw rv uid ip)) = name"
  "GetTunnelNamespace (Some (full_mapping name ns port gw rv uid ip)) = ns"
  "GetForwarderPort (Some (full_mapping name ns port gw rv uid ip)) = port"
  "GetGatewayAddress (Some (full_mapping name ns port gw rv uid ip)) = gw"
  "GetRevision (Some (full_mapping name ns port gw rv uid ip)) = rv"
  by (simp_all add: getter_defs proto_get_def full_mapping_def)

end
