(* ===== verification/Port_Allocator.thy ===== *)
theory Port_Allocator
  imports Prelude
begin

text \<open>
  The forwarder port allocator, \<open>pkg/portalloc/allocator.go\<close>: the two maps it keeps, every
  operation, the invariant that ties the maps together, and the contract its clients (the
  reconciler and the configuration server) rely on.
\<close>

section \<open>State and operations\<close>

definition defaultMinPort :: int where "defaultMinPort = 10000"

definition defaultMaxPort :: int where "defaultMaxPort = 60000"

record PortAllocator =
  minPort :: int
  maxPort :: int
  allocated :: "string \<rightharpoonup> int"
  used :: "int \<rightharpoonup> string"

datatype alloc_error = errRangeExhausted | panicIntn

definition New :: "int \<Rightarrow> int \<Rightarrow> PortAllocator" where
  "New min0 max0 =
     (let min1 = (if min0 \<le> 0 then defaultMinPort else min0);
          max1 = (if max0 \<le> 0 then defaultMaxPort else max0);
          min2 = (if max1 < min1 then defaultMinPort else min1);
          max2 = (if max1 < min1 then defaultMaxPort else max1)
      in \<lparr>minPort = min2, maxPort = max2, allocated = Map.empty, used = Map.empty\<rparr>)"

text \<open>
  \<open>rng.Intn(n)\<close> yields any value of \<open>[0, n)\<close> and panics for a non-positive bound. The
  output of the generator is the argument \<open>draw\<close>.
\<close>

definition rng_Intn :: "int \<Rightarrow> int \<Rightarrow> int option" where
  "rng_Intn draw n = (if n \<le> 0 then None else Some (draw mod n))"

text \<open>The search loop of \<open>Allocate\<close> over the remaining offsets.\<close>

fun alloc_scan :: "(int \<rightharpoonup> string) \<Rightarrow> int \<Rightarrow> int \<Rightarrow> int \<Rightarrow> int list \<Rightarrow> int option" where
  "alloc_scan u mn start n [] = None"
| "alloc_scan u mn start n (offset # offsets) =
     (let port = i32 (mn + i32 (go_rem (i64 (start + offset)) n))
      in case u port of Some _ \<Rightarrow> alloc_scan u mn start n offsets | None \<Rightarrow> Some port)"

definition rangeSize :: "PortAllocator \<Rightarrow> int" where
  "rangeSize a = i64 (i32 (maxPort a - minPort a) + 1)"

definition Allocate :: "int \<Rightarrow> string \<Rightarrow> PortAllocator \<Rightarrow> (alloc_error + int) \<times> PortAllocator" where
  "Allocate draw tunnelKey a =
     (case allocated a tunnelKey of
        Some port \<Rightarrow> (Inr port, a)
      | None \<Rightarrow>
          (case rng_Intn draw (rangeSize a) of
             None \<Rightarrow> (Inl panicIntn, a)
           | Some start \<Rightarrow>
               (case alloc_scan (used a) (minPort a) start (rangeSize a) [0..rangeSize a - 1] of
                  None \<Rightarrow> (Inl errRangeExhausted, a)
                | Some port \<Rightarrow>
                    (Inr port, a\<lparr>allocated := (allocated a)(tunnelKey \<mapsto> port),
                                 used := (used a)(port \<mapsto> tunnelKey)\<rparr>))))"

definition Release :: "string \<Rightarrow> PortAllocator \<Rightarrow> PortAllocator" where
  "Release tunnelKey a =
     (case allocated a tunnelKey of
        None \<Rightarrow> a
      | Some port \<Rightarrow> a\<lparr>allocated := (allocated a)(tunnelKey := None),
                       used := (used a)(port := None)\<rparr>)"

definition IsAllocated :: "PortAllocator \<Rightarrow> int \<Rightarrow> bool" where
  "IsAllocated a port \<longleftrightarrow> used a port \<noteq> None"

definition GetPort :: "PortAllocator \<Rightarrow> string \<Rightarrow> int option" where
  "GetPort a tunnelKey = allocated a tunnelKey"

definition LoadExisting :: "string \<Rightarrow> int \<Rightarrow> PortAllocator \<Rightarrow> PortAllocator" where
  "LoadExisting tunnelKey port a =
     (if port < minPort a \<or> port > maxPort a then a
      else if (case used a port of Some currentKey \<Rightarrow> currentKey \<noteq> tunnelKey | None \<Rightarrow> False) then a
      else
        let used1 = (case allocated a tunnelKey of
                       Some existingPort \<Rightarrow>
                         if existingPort \<noteq> port then (used a)(existingPort := None) else used a
                     | None \<Rightarrow> used a)
        in a\<lparr>allocated := (allocated a)(tunnelKey \<mapsto> port), used := used1(port \<mapsto> tunnelKey)\<rparr>)"

lemma GetPort_eq: "GetPort a = allocated a"
  by (simp add: GetPort_def fun_eq_iff)

section \<open>The invariant\<close>

definition alloc_inv :: "PortAllocator \<Rightarrow> bool" where
  "alloc_inv a \<longleftrightarrow>
     0 < minPort a \<and> minPort a \<le> maxPort a \<and> in_int32 (maxPort a) \<and>
     inverse_maps (allocated a) (used a) \<and>
     (\<forall>k p. allocated a k = Some p \<longrightarrow> minPort a \<le> p \<and> p \<le> maxPort a)"

lemma alloc_invD:
  assumes "alloc_inv a"
  shows "0 < minPort a" "minPort a \<le> maxPort a" "in_int32 (maxPort a)"
    and "inverse_maps (allocated a) (used a)"
    and "allocated a k = Some p \<Longrightarrow> minPort a \<le> p \<and> p \<le> maxPort a"
  using assms by (auto simp: alloc_inv_def)

lemma New_inv: "in_int32 mn \<Longrightarrow> in_int32 mx \<Longrightarrow> alloc_inv (New mn mx)"
  by (auto simp: alloc_inv_def inverse_maps_empty New_def Let_def defaultMinPort_def defaultMaxPort_def in_int32_def)

lemma rangeSize_eq: "alloc_inv a \<Longrightarrow> rangeSize a = maxPort a - minPort a + 1"
  by (auto simp: rangeSize_def alloc_inv_def in_int32_def in_int64_def i32_id i64_id)

lemma rangeSize_bounds: "alloc_inv a \<Longrightarrow> 0 < rangeSize a \<and> rangeSize a < 2 ^ 31"
  by (auto simp: rangeSize_eq alloc_inv_def in_int32_def)

text \<open>The port probed at one offset, without machine arithmetic.\<close>

abbreviation probe :: "PortAllocator \<Rightarrow> int \<Rightarrow> int \<Rightarrow> int" where
  "probe a start offset \<equiv> minPort a + (start + offset) mod (maxPort a - minPort a + 1)"

lemma scan_step:
  assumes "alloc_inv a" "0 \<le> start" "start < rangeSize a" "0 \<le> off" "off < rangeSize a"
  shows "i32 (minPort a + i32 (go_rem (i64 (start + off)) (rangeSize a))) = probe a start off"
proof -
  define m where "m = (start + off) mod rangeSize a"
  have n: "0 < rangeSize a" "rangeSize a < 2 ^ 31" "rangeSize a = maxPort a - minPort a + 1"
    using assms(1) rangeSize_bounds rangeSize_eq by auto
  have m: "0 \<le> m" "m < rangeSize a"
    unfolding m_def by (rule pos_mod_sign [OF n(1)], rule pos_mod_bound [OF n(1)])
  have "i64 (start + off) = start + off"
    using assms n by (intro i64_id) (auto simp: in_int64_def)
  then have "go_rem (i64 (start + off)) (rangeSize a) = m"
    using assms n by (simp add: go_rem_nonneg m_def)
  moreover have "i32 m = m"
    using m n by (intro i32_id) (auto simp: in_int32_def)
  moreover have "i32 (minPort a + m) = minPort a + m"
    using m n alloc_invD(1,3) [OF assms(1)] by (intro i32_id) (auto simp: in_int32_def)
  ultimately show ?thesis using n by (simp add: m_def)
qed

lemma alloc_scan_eq:
  assumes "alloc_inv a" "0 \<le> start" "start < rangeSize a"
  shows "set offs \<subseteq> {0..<rangeSize a} \<Longrightarrow>
    alloc_scan (used a) (minPort a) start (rangeSize a) offs =
    find (\<lambda>p. used a p = None) (map (probe a start) offs)"
  by (induction offs) (auto simp: scan_step [OF assms] Let_def split: option.splits)

lemma mod_shift_onto:
  fixes s n x :: int
  assumes "0 < n" "0 \<le> x" "x < n"
  shows "\<exists>off. 0 \<le> off \<and> off < n \<and> (s + off) mod n = x"
proof (intro exI conjI)
  show "0 \<le> (x - s) mod n" "(x - s) mod n < n" using assms by auto
  show "(s + (x - s) mod n) mod n = x"
    using assms by (simp add: mod_add_right_eq)
qed

lemma probe_range:
  assumes "alloc_inv a"
  shows "probe a start ` {0..<rangeSize a} = {minPort a..maxPort a}"
proof
  have n: "0 < maxPort a - minPort a + 1" using alloc_invD(2) [OF assms] by simp
  show "probe a start ` {0..<rangeSize a} \<subseteq> {minPort a..maxPort a}"
  proof
    fix p assume "p \<in> probe a start ` {0..<rangeSize a}"
    then obtain off where "p = probe a start off" by auto
    then show "p \<in> {minPort a..maxPort a}"
      using n pos_mod_bound [OF n, of "start + off"] pos_mod_sign [OF n, of "start + off"] by simp
  qed
  show "{minPort a..maxPort a} \<subseteq> probe a start ` {0..<rangeSize a}"
  proof
    fix p assume p: "p \<in> {minPort a..maxPort a}"
    then obtain off where "0 \<le> off" "off < maxPort a - minPort a + 1"
        "(start + off) mod (maxPort a - minPort a + 1) = p - minPort a"
      using mod_shift_onto [OF n, of "p - minPort a" start] by auto
    then show "p \<in> probe a start ` {0..<rangeSize a}"
      using rangeSize_eq [OF assms] by (intro image_eqI [of _ _ off]) auto
  qed
qed

text \<open>The search over all offsets, as a search over the ports in cyclic order.\<close>

definition free_port :: "PortAllocator \<Rightarrow> int \<Rightarrow> int option" where
  "free_port a start =
     find (\<lambda>p. used a p = None) (map (probe a start) [0..maxPort a - minPort a])"

lemma Allocate_eq:
  assumes "alloc_inv a"
  shows "Allocate draw k a =
    (case allocated a k of
       Some port \<Rightarrow> (Inr port, a)
     | None \<Rightarrow>
         (case free_port a (draw mod (maxPort a - minPort a + 1)) of
            None \<Rightarrow> (Inl errRangeExhausted, a)
          | Some port \<Rightarrow> (Inr port, a\<lparr>allocated := (allocated a)(k \<mapsto> port),
                                       used := (used a)(port \<mapsto> k)\<rparr>)))"
proof -
  have n: "0 < rangeSize a" "rangeSize a = maxPort a - minPort a + 1"
    using rangeSize_bounds [OF assms] rangeSize_eq [OF assms] by auto
  have "alloc_scan (used a) (minPort a) (draw mod rangeSize a) (rangeSize a) [0..rangeSize a - 1] =
        free_port a (draw mod (maxPort a - minPort a + 1))"
    using n pos_mod_bound [OF n(1), of draw] pos_mod_sign [OF n(1), of draw]
    by (subst alloc_scan_eq [OF assms]) (auto simp: free_port_def)
  with n show ?thesis
    by (auto simp: Allocate_def rng_Intn_def split: option.splits)
qed

lemma free_port_Some:
  assumes "alloc_inv a" "free_port a start = Some p"
  shows "used a p = None" "minPort a \<le> p" "p \<le> maxPort a"
proof -
  from assms(2) have "used a p = None" "p \<in> set (map (probe a start) [0..maxPort a - minPort a])"
    by (auto simp: free_port_def find_Some_iff)
  moreover have "set (map (probe a start) [0..maxPort a - minPort a]) = {minPort a..maxPort a}"
    using probe_range [OF assms(1), of start] rangeSize_eq [OF assms(1)]
    by (simp add: atLeastLessThanPlusOne_atLeastAtMost_int)
  ultimately show "used a p = None" "minPort a \<le> p" "p \<le> maxPort a" by auto
qed

lemma free_port_None:
  assumes "alloc_inv a"
  shows "free_port a start = None \<longleftrightarrow> (\<forall>p. minPort a \<le> p \<and> p \<le> maxPort a \<longrightarrow> used a p \<noteq> None)"
proof -
  have "set (map (probe a start) [0..maxPort a - minPort a]) = {minPort a..maxPort a}"
    using probe_range [OF assms, of start] rangeSize_eq [OF assms]
    by (simp add: atLeastLessThanPlusOne_atLeastAtMost_int)
  then show ?thesis by (auto simp: free_port_def find_None_iff)
qed

section \<open>Every operation keeps the invariant\<close>

lemma Allocate_range [simp]:
  "minPort (snd (Allocate draw k a)) = minPort a" "maxPort (snd (Allocate draw k a)) = maxPort a"
  by (auto simp: Allocate_def split: option.splits)

lemma Allocate_inv:
  assumes "alloc_inv a"
  shows "alloc_inv (snd (Allocate draw k a))"
proof -
  have "alloc_inv (a\<lparr>allocated := (allocated a)(k \<mapsto> p), used := (used a)(p \<mapsto> k)\<rparr>)"
    if "allocated a k = None" "free_port a s = Some p" for p s
    using that assms free_port_Some [OF assms that(2)]
    by (auto simp: alloc_inv_def intro: inverse_maps_insert)
  with assms show ?thesis
    by (auto simp: Allocate_eq split: option.splits)
qed

lemma Release_allocated: "allocated (Release k a) = (allocated a)(k := None)"
  by (auto simp: Release_def fun_eq_iff split: option.splits)

lemma Release_inv:
  assumes "alloc_inv a"
  shows "alloc_inv (Release k a)"
proof (cases "allocated a k")
  case (Some p)
  with assms inverse_maps_delete [OF alloc_invD(4) [OF assms] Some] show ?thesis
    by (simp add: Release_def alloc_inv_def)
qed (use assms in \<open>simp add: Release_def\<close>)

lemma LoadExisting_allocated:
  "allocated (LoadExisting k p a) =
     (if minPort a \<le> p \<and> p \<le> maxPort a \<and> (used a p = None \<or> used a p = Some k)
      then (allocated a)(k \<mapsto> p) else allocated a)"
  by (auto simp: LoadExisting_def Let_def split: option.splits)

lemma LoadExisting_range [simp]:
  "minPort (LoadExisting k p a) = minPort a" "maxPort (LoadExisting k p a) = maxPort a"
  by (auto simp: LoadExisting_def Let_def)

lemma LoadExisting_maps:
  assumes "alloc_inv a"
  shows "inverse_maps (allocated (LoadExisting k p a)) (used (LoadExisting k p a))"
proof -
  let ?m = "allocated a" and ?u = "used a" and ?b = "LoadExisting k p a"
  have i: "inverse_maps ?m ?u" by (rule alloc_invD(4) [OF assms])
  show ?thesis
  proof (cases "p < minPort a \<or> p > maxPort a \<or> (\<exists>k'. ?u p = Some k' \<and> k' \<noteq> k)")
    case True
    then have "?b = a" by (auto simp: LoadExisting_def)
    with i show ?thesis by simp
  next
    case False
    show ?thesis
    proof (cases "?u p")
      case (Some k')
      with False have "?u p = Some k" by simp
      moreover from this have "?m k = Some p" by (rule inverse_mapsD(2) [OF i])
      ultimately have "allocated ?b = ?m" "used ?b = ?u"
        using False by (auto simp: LoadExisting_def Let_def)
      with i show ?thesis by simp
    next
      case None
      then have "inverse_maps (?m(k \<mapsto> p)) (?u(q := None, p \<mapsto> k))" if "?m k = Some q" for q
        using inverse_maps_insert [OF inverse_maps_delete [OF i that], of k p] by simp
      moreover have "?u q \<noteq> None" if "?m k = Some q" for q
        using inverse_mapsD(1) [OF i that] by simp
      ultimately show ?thesis
        using None False i by (cases "?m k") (auto simp: LoadExisting_def Let_def inverse_maps_insert)
    qed
  qed
qed

lemma LoadExisting_inv:
  assumes "alloc_inv a"
  shows "alloc_inv (LoadExisting k p a)"
proof -
  have "minPort a \<le> q \<and> q \<le> maxPort a" if "allocated (LoadExisting k p a) k' = Some q" for k' q
    using that alloc_invD(5) [OF assms, of k' q]
    by (simp add: LoadExisting_allocated split: if_splits)
  with assms LoadExisting_maps [OF assms, of k p] show ?thesis
    by (simp add: alloc_inv_def)
qed

section \<open>The contract of a port registry\<close>

text \<open>
  What the reconciler and the configuration server rely on. \<open>port_of\<close> is the abstract
  state, a partial injection from tunnel keys to ports of a fixed range.
\<close>

locale port_registry =
  fixes inv :: "'a \<Rightarrow> bool"
    and port_of :: "'a \<Rightarrow> string \<Rightarrow> int option"
    and taken :: "'a \<Rightarrow> int \<Rightarrow> bool"
    and lo :: "'a \<Rightarrow> int"
    and hi :: "'a \<Rightarrow> int"
    and alloc :: "int \<Rightarrow> string \<Rightarrow> 'a \<Rightarrow> (alloc_error + int) \<times> 'a"
    and release :: "string \<Rightarrow> 'a \<Rightarrow> 'a"
    and load :: "string \<Rightarrow> int \<Rightarrow> 'a \<Rightarrow> 'a"
  assumes taken_iff: "inv a \<Longrightarrow> taken a p \<longleftrightarrow> (\<exists>k. port_of a k = Some p)"
    and port_inj: "inv a \<Longrightarrow> port_of a k = Some p \<Longrightarrow> port_of a k' = Some p \<Longrightarrow> k = k'"
    and port_range: "inv a \<Longrightarrow> port_of a k = Some p \<Longrightarrow> lo a \<le> p \<and> p \<le> hi a"
    and alloc_known: "inv a \<Longrightarrow> port_of a k = Some p \<Longrightarrow> alloc d k a = (Inr p, a)"
    and alloc_new: "inv a \<Longrightarrow> port_of a k = None \<Longrightarrow> alloc d k a = (Inr p, b) \<Longrightarrow>
      \<not> taken a p \<and> port_of b = (port_of a)(k \<mapsto> p)"
    and alloc_fail: "inv a \<Longrightarrow> alloc d k a = (Inl e, b) \<Longrightarrow>
      b = a \<and> e = errRangeExhausted \<and> (\<forall>p. lo a \<le> p \<and> p \<le> hi a \<longrightarrow> taken a p)"
    and release_port: "inv a \<Longrightarrow> port_of (release k a) = (port_of a)(k := None)"
    and load_port: "inv a \<Longrightarrow> port_of (load k p a) =
      (if lo a \<le> p \<and> p \<le> hi a \<and> (\<forall>k'. port_of a k' = Some p \<longrightarrow> k' = k)
       then (port_of a)(k \<mapsto> p) else port_of a)"
    and inv_alloc: "inv a \<Longrightarrow> inv (snd (alloc d k a))"
    and inv_release: "inv a \<Longrightarrow> inv (release k a)"
    and inv_load: "inv a \<Longrightarrow> inv (load k p a)"
    and bounds_alloc: "lo (snd (alloc d k a)) = lo a" "hi (snd (alloc d k a)) = hi a"
    and bounds_load: "lo (load k p a) = lo a" "hi (load k p a) = hi a"
begin

text \<open>A request is never answered with another key's port.\<close>

lemma alloc_apart:
  assumes "inv a" "port_of a k' = Some q" "k \<noteq> k'" "fst (alloc d k a) = Inr p"
  shows "p \<noteq> q"
proof (cases "port_of a k")
  case None
  obtain b where "alloc d k a = (Inr p, b)" using assms(4) by (metis prod.collapse)
  from alloc_new [OF assms(1) None this] assms(2) taken_iff [OF assms(1)] show ?thesis by auto
next
  case (Some p')
  then have "p' = p" using alloc_known [OF assms(1) Some, of d] assms(4) by simp
  with Some assms(2,3) port_inj [OF assms(1)] show ?thesis by blast
qed

text \<open>What a successful request leaves behind, for a new key and for a known one.\<close>

lemma alloc_records:
  assumes "inv a" "alloc d k a = (Inr p, b)"
  shows "inv b" "port_of b = (port_of a)(k \<mapsto> p)" "lo a \<le> p" "p \<le> hi a"
proof -
  show b: "inv b" using inv_alloc [OF assms(1), of d k] assms(2) by simp
  show "port_of b = (port_of a)(k \<mapsto> p)"
  proof (cases "port_of a k")
    case None
    from alloc_new [OF assms(1) None assms(2)] show ?thesis by simp
  next
    case (Some q)
    from alloc_known [OF assms(1) Some, of d] assms(2) Some show ?thesis by (auto simp: map_upd_triv)
  qed
  then have "port_of b k = Some p" by simp
  then show "lo a \<le> p" "p \<le> hi a"
    using port_range [OF b] bounds_alloc [of d k a] assms(2) by auto
qed

text \<open>A second request for the same key is answered with the same port, whatever is drawn.\<close>

lemma alloc_again:
  assumes "inv a" "alloc d k a = (Inr p, b)"
  shows "alloc d' k b = (Inr p, b)"
  using alloc_records [OF assms] by (intro alloc_known) auto

text \<open>A request never moves another key.\<close>

lemma alloc_frame:
  assumes "inv a" "k' \<noteq> k"
  shows "port_of (snd (alloc d k a)) k' = port_of a k'"
proof (cases "alloc d k a")
  case (Pair r b)
  show ?thesis
  proof (cases r)
    case (Inl e)
    with Pair assms alloc_fail [of a d k e b] show ?thesis by simp
  next
    case (Inr p)
    with Pair assms show ?thesis
      using alloc_new [of a k d p b] alloc_known [of a k _ d] by (cases "port_of a k") auto
  qed
qed

text \<open>As long as the keys hold fewer ports than the range has, a request succeeds.\<close>

lemma alloc_succeeds:
  assumes "inv a" "finite (dom (port_of a))" "int (card (dom (port_of a))) < hi a - lo a + 1"
  shows "\<exists>p b. alloc d k a = (Inr p, b)"
proof (rule ccontr)
  assume "\<not> ?thesis"
  then obtain e b where "alloc d k a = (Inl e, b)"
    by (cases "alloc d k a", cases "fst (alloc d k a)") auto
  with alloc_fail [OF assms(1)] have "\<forall>p. lo a \<le> p \<and> p \<le> hi a \<longrightarrow> taken a p" by blast
  then have "{lo a..hi a} \<subseteq> ran (port_of a)"
    using taken_iff [OF assms(1)] by (auto simp: ran_def)
  moreover have "ran (port_of a) = (the \<circ> port_of a) ` dom (port_of a)"
    by (force simp: ran_def dom_def)
  ultimately have "card {lo a..hi a} \<le> card ((the \<circ> port_of a) ` dom (port_of a))"
    using assms(2) by (intro card_mono) auto
  also have "\<dots> \<le> card (dom (port_of a))"
    using assms(2) by (rule card_image_le)
  finally have "card {lo a..hi a} \<le> card (dom (port_of a))" .
  with assms(3) show False by simp
qed

lemma load_list_inv: "inv a \<Longrightarrow> inv (fold (\<lambda>(k, p). load k p) kps a)"
  by (induction kps arbitrary: a) (auto simp: inv_load)

lemma load_list_bounds:
  "lo (fold (\<lambda>(k, p). load k p) kps a) = lo a" "hi (fold (\<lambda>(k, p). load k p) kps a) = hi a"
  by (induction kps arbitrary: a) (auto simp: bounds_load)

text \<open>Recorded ports that are distinct and in range are all restored.\<close>

lemma load_list_only:
  "inv a \<Longrightarrow> port_of (fold (\<lambda>(k, p). load k p) kps a) k = Some p \<Longrightarrow>
   (k, p) \<in> set kps \<or> port_of a k = Some p"
proof (induction kps arbitrary: a)
  case (Cons kp kps)
  obtain k1 p1 where kp: "kp = (k1, p1)" by (cases kp)
  have "(k, p) \<in> set kps \<or> port_of (load k1 p1 a) k = Some p"
    using Cons kp inv_load by simp
  then show ?case
    using kp load_port [OF Cons.prems(1), of k1 p1] by (auto split: if_splits)
qed simp

lemma load_list_ports:
  assumes "inv a"
  shows "distinct (map fst kps) \<Longrightarrow> distinct (map snd kps) \<Longrightarrow>
    \<forall>(k, p) \<in> set kps. lo a \<le> p \<and> p \<le> hi a \<and> (\<forall>k'. port_of a k' = Some p \<longrightarrow> k' = k) \<Longrightarrow>
    (k, p) \<in> set kps \<Longrightarrow> port_of (fold (\<lambda>(k, p). load k p) kps a) k = Some p"
proof (induction kps rule: rev_induct)
  case (snoc kp kps)
  obtain k1 p1 where kp: "kp = (k1, p1)" by (cases kp)
  let ?b = "fold (\<lambda>(k, p). load k p) kps a"
  have b: "inv ?b" using assms by (rule load_list_inv)
  have k1: "lo a \<le> p1" "p1 \<le> hi a" "\<And>k'. port_of a k' = Some p1 \<Longrightarrow> k' = k1"
    and fresh: "p1 \<notin> snd ` set kps" "k1 \<notin> fst ` set kps"
    using snoc.prems(1-3) kp by auto
  have "k' = k1" if "port_of ?b k' = Some p1" for k'
    using load_list_only [OF assms that] fresh(1) k1(3) [of k'] by (auto simp: image_iff)
  then have "port_of (load k1 p1 ?b) = (port_of ?b)(k1 \<mapsto> p1)"
    using k1(1,2) load_port [OF b, of k1 p1] by (auto simp: load_list_bounds)
  moreover have "port_of ?b k = Some p" if "(k, p) \<in> set kps"
    using snoc.IH snoc.prems(1-3) that by simp
  moreover have "k \<noteq> k1" if "(k, p) \<in> set kps"
    using fresh(2) that by (metis fst_conv image_eqI)
  ultimately show ?case
    using snoc.prems(4) kp by auto
qed simp

end

text \<open>The allocator of the sources meets the contract.\<close>

interpretation allocator: port_registry alloc_inv GetPort IsAllocated minPort maxPort
  Allocate Release LoadExisting
proof (unfold_locales, goal_cases)
  case (1 a p)
  then have i: "inverse_maps (allocated a) (used a)" by (rule alloc_invD(4))
  show ?case
    using i by (auto simp: IsAllocated_def GetPort_eq inverse_maps_def)
next
  case (2 a k p k')
  then show ?case
    unfolding GetPort_eq by (rule_tac inverse_maps_inj [OF alloc_invD(4)])
next
  case (3 a k p)
  then show ?case by (simp add: GetPort_eq alloc_invD(5))
next
  case (4 a k p d)
  then show ?case by (simp add: GetPort_eq Allocate_def)
next
  case (5 a k d p b)
  then show ?case
    using free_port_Some(1) [OF 5(1)]
    by (auto simp: GetPort_eq IsAllocated_def Allocate_eq split: option.splits)
next
  case (6 a d k e b)
  then show ?case
    using free_port_None [OF 6(1)]
    by (auto simp: IsAllocated_def Allocate_eq split: option.splits)
next
  case (7 a k)
  then show ?case by (simp add: GetPort_eq Release_allocated)
next
  case (8 a k p)
  then have i: "inverse_maps (allocated a) (used a)" by (rule alloc_invD(4))
  have e: "(used a p = None \<or> used a p = Some k) \<longleftrightarrow> (\<forall>k'. allocated a k' = Some p \<longrightarrow> k' = k)"
    using i by (cases "used a p") (auto simp: inverse_maps_def)
  show ?case by (simp only: GetPort_eq LoadExisting_allocated e)
qed (simp_all add: Allocate_inv Release_inv LoadExisting_inv)

section \<open>The allocator as a machine\<close>

inductive alloc_step :: "PortAllocator \<Rightarrow> PortAllocator \<Rightarrow> bool" where
  allocate: "alloc_step a (snd (Allocate draw k a))"
| release: "alloc_step a (Release k a)"
| load: "alloc_step a (LoadExisting k p a)"

definition alloc_init :: "PortAllocator \<Rightarrow> bool" where
  "alloc_init a \<longleftrightarrow> (\<exists>mn mx. in_int32 mn \<and> in_int32 mx \<and> a = New mn mx)"

interpretation alloc_machine: state_machine alloc_init alloc_step alloc_inv
proof (unfold_locales, goal_cases)
  case (1 a)
  then show ?case by (auto simp: alloc_init_def New_inv)
next
  case (2 a b)
  from 2(2,1) show ?case
    by cases (auto simp: Allocate_inv Release_inv LoadExisting_inv)
qed

lemma alloc_inv_finite:
  assumes "alloc_inv a"
  shows "finite (dom (GetPort a))"
proof (rule inj_on_finite [of "the \<circ> GetPort a" _ "{minPort a..maxPort a}"])
  show "inj_on (the \<circ> GetPort a) (dom (GetPort a))"
    using allocator.port_inj [OF assms] by (auto simp: inj_on_def)
  show "(the \<circ> GetPort a) ` dom (GetPort a) \<subseteq> {minPort a..maxPort a}"
    using allocator.port_range [OF assms] by auto
qed simp

text \<open>An allocator for the witnesses below: two ports, one of them taken.\<close>

definition alloc_ex :: PortAllocator where
  "alloc_ex = snd (Allocate 0 ''ns/a'' (New 5 6))"

lemma alloc_ex_eq:
  "alloc_ex = \<lparr>minPort = 5, maxPort = 6, allocated = [''ns/a'' \<mapsto> 5], used = [5 \<mapsto> ''ns/a'']\<rparr>"
  by (simp add: alloc_ex_def Allocate_def New_def rng_Intn_def rangeSize_def i32_def i64_def
      go_rem_def upto.simps)

lemma alloc_ex_reach: "reach alloc_init alloc_step alloc_ex"
proof -
  have "alloc_init (New 5 6)"
    unfolding alloc_init_def by (intro exI [of _ 5] exI [of _ 6]) (simp add: in_int32_def)
  then have "reach alloc_init alloc_step (New 5 6)" by (rule reach_init)
  then show ?thesis unfolding alloc_ex_def by (rule reach_step) (rule alloc_step.allocate)
qed

lemma alloc_ex_inv: "alloc_inv alloc_ex"
  by (rule alloc_machine.reach_inv [OF alloc_ex_reach])

section \<open>Properties\<close>

text \<open>
  C5: in every state an allocator can reach from its constructor through any sequence of
  operations, a port belongs to at most one tunnel, lies in the configured range, and
  \<open>IsAllocated\<close> and \<open>GetPort\<close> agree.
\<close>

theorem allocator_exclusive:
  assumes "reach alloc_init alloc_step a" and "GetPort a k = Some p"
  shows "IsAllocated a p \<and> minPort a \<le> p \<and> p \<le> maxPort a \<and> (\<forall>k'. GetPort a k' = Some p \<longrightarrow> k' = k)"
proof -
  have "alloc_inv a" by (rule alloc_machine.reach_inv [OF assms(1)])
  with assms(2) show ?thesis
    using allocator.taken_iff allocator.port_range allocator.port_inj by blast
qed

theorem allocator_exclusive_witness:
  "IsAllocated alloc_ex 5 \<and> GetPort alloc_ex ''ns/b'' \<noteq> Some 5"
proof -
  have "GetPort alloc_ex ''ns/a'' = Some 5" by (simp add: alloc_ex_eq GetPort_def)
  from allocator_exclusive [OF alloc_ex_reach this] show ?thesis by auto
qed

text \<open>
  C21: \<open>Allocate\<close> is totally correct. It returns the port the tunnel already has and changes
  nothing; or it returns a port of the range that no tunnel had and records it for this
  tunnel only; or every port of the range is taken, it reports exhaustion and changes nothing.
  It never panics.
\<close>

theorem Allocate_correct:
  assumes "alloc_inv a"
  shows "case Allocate draw k a of
      (Inr p, b) \<Rightarrow>
        (if GetPort a k = Some p then b = a
         else GetPort a k = None \<and> \<not> IsAllocated a p \<and> minPort a \<le> p \<and> p \<le> maxPort a \<and>
              GetPort b = (GetPort a)(k \<mapsto> p) \<and> IsAllocated b = (IsAllocated a)(p := True))
    | (Inl e, b) \<Rightarrow>
        b = a \<and> e = errRangeExhausted \<and> GetPort a k = None \<and>
        (\<forall>p. minPort a \<le> p \<and> p \<le> maxPort a \<longrightarrow> IsAllocated a p)"
  using free_port_Some [OF assms] free_port_None [OF assms]
  by (auto simp: Allocate_eq [OF assms] GetPort_eq IsAllocated_def fun_eq_iff split: option.splits)

theorem Allocate_correct_witness:
  "Allocate 7 ''ns/b'' alloc_ex = (Inr 6, snd (Allocate 7 ''ns/b'' alloc_ex)) \<and> \<not> IsAllocated alloc_ex 6 \<and>
   IsAllocated (snd (Allocate 7 ''ns/b'' alloc_ex)) 6"
proof -
  have e: "fst (Allocate 7 ''ns/b'' alloc_ex) = Inr 6" and n: "GetPort alloc_ex ''ns/b'' = None"
    by (simp_all add: alloc_ex_eq Allocate_def rng_Intn_def rangeSize_def i32_def i64_def go_rem_def
        upto.simps GetPort_def)
  have p: "Allocate 7 ''ns/b'' alloc_ex = (Inr 6, snd (Allocate 7 ''ns/b'' alloc_ex))"
    using e by (metis prod.collapse)
  show ?thesis
    using Allocate_correct [OF alloc_ex_inv, where draw = 7 and k = "''ns/b''"] p n by (auto split: prod.splits)
qed



text \<open>
  As long as fewer tunnels hold a port than the range has ports, a request succeeds
  whatever the random generator yields.
\<close>

lemma Allocate_available:
  assumes "alloc_inv a" "int (card (dom (GetPort a))) < maxPort a - minPort a + 1"
  shows "\<exists>p b. Allocate draw k a = (Inr p, b) \<and> GetPort b k = Some p"
proof -
  obtain p b where pb: "Allocate draw k a = (Inr p, b)"
    using allocator.alloc_succeeds [OF assms(1) alloc_inv_finite [OF assms(1)] assms(2)] by blast
  moreover have "GetPort b k = Some p"
    using allocator.alloc_new [OF assms(1) _ pb] allocator.alloc_known [OF assms(1), of k _ draw] pb
    by (cases "GetPort a k") auto
  ultimately show ?thesis by blast
qed

lemma Allocate_available_witness:
  "\<exists>p b. Allocate 3 ''ns/b'' alloc_ex = (Inr p, b) \<and> GetPort b ''ns/b'' = Some p"
proof -
  have "dom (GetPort alloc_ex) = {''ns/a''}" by (auto simp: alloc_ex_eq GetPort_def split: if_splits)
  then have "int (card (dom (GetPort alloc_ex))) < maxPort alloc_ex - minPort alloc_ex + 1"
    by (simp add: alloc_ex_eq)
  from Allocate_available [OF alloc_ex_inv this] show ?thesis .
qed

text \<open>
  A retried request (the reconciler asks again when it could not persist the port) gets
  the same port and leaves the allocator as it is, whatever is drawn; and no request moves
  another tunnel.
\<close>

lemma Allocate_retry:
  assumes "alloc_inv a" "Allocate draw k a = (Inr p, b)"
  shows "Allocate draw' k b = (Inr p, b) \<and> (\<forall>k'. k' \<noteq> k \<longrightarrow> GetPort b k' = GetPort a k')"
  using allocator.alloc_again [OF assms] allocator.alloc_frame [OF assms(1), where k = k and d = draw]
    assms(2) by auto

lemma Allocate_retry_witness:
  "Allocate 1 ''ns/a'' alloc_ex = (Inr 5, alloc_ex)"
proof -
  have "fst (Allocate 0 ''ns/a'' (New 5 6)) = Inr 5"
    by (simp add: Allocate_def New_def rng_Intn_def rangeSize_def i32_def i64_def go_rem_def upto.simps)
  then have "Allocate 0 ''ns/a'' (New 5 6) = (Inr 5, alloc_ex)"
    by (metis alloc_ex_def prod.collapse)
  moreover have "alloc_inv (New 5 6)" by (rule New_inv) (simp_all add: in_int32_def)
  ultimately show ?thesis using Allocate_retry [of "New 5 6" 0 "''ns/a''" 5 alloc_ex 1] by blast
qed

text \<open>
  C6: \<open>LoadExisting\<close> gives the tunnel the recorded port unless the port is out of range or
  another tunnel holds it, in which case nothing changes. No other tunnel is affected; the
  tunnel's previous port becomes free when the port changes.
\<close>

lemma LoadExisting_correct:
  assumes "alloc_inv a"
  shows "let b = LoadExisting k p a in
    (if minPort a \<le> p \<and> p \<le> maxPort a \<and> (\<forall>k'. GetPort a k' = Some p \<longrightarrow> k' = k)
     then GetPort b = (GetPort a)(k \<mapsto> p) \<and>
          (\<forall>q. IsAllocated b q \<longleftrightarrow> q = p \<or> (IsAllocated a q \<and> GetPort a k \<noteq> Some q))
     else b = a)"
proof -
  let ?b = "LoadExisting k p a" and ?ok = "minPort a \<le> p \<and> p \<le> maxPort a \<and> (\<forall>k'. GetPort a k' = Some p \<longrightarrow> k' = k)"
  have b: "alloc_inv ?b" using assms by (rule LoadExisting_inv)
  show ?thesis
  proof (cases ?ok)
    case True
    then have g: "GetPort ?b = (GetPort a)(k \<mapsto> p)"
      by (rule trans [OF allocator.load_port [OF assms, of k p] if_P])
    have "IsAllocated ?b q \<longleftrightarrow> q = p \<or> (IsAllocated a q \<and> GetPort a k \<noteq> Some q)" for q
      using allocator.port_inj [OF assms, of _ q k]
      by (auto simp: allocator.taken_iff [OF b] allocator.taken_iff [OF assms] g)
    with g have "GetPort ?b = (GetPort a)(k \<mapsto> p) \<and>
        (\<forall>q. IsAllocated ?b q \<longleftrightarrow> q = p \<or> (IsAllocated a q \<and> GetPort a k \<noteq> Some q))" by blast
    then show ?thesis unfolding Let_def using True by (subst if_P)
  next
    case False
    then have "p < minPort a \<or> p > maxPort a \<or> (\<exists>k'. used a p = Some k' \<and> k' \<noteq> k)"
      using alloc_invD(4) [OF assms] by (auto simp: GetPort_eq inverse_maps_def not_le)
    then have "?b = a" by (auto simp: LoadExisting_def)
    then show ?thesis unfolding Let_def using False by (subst if_not_P)
  qed
qed

lemma LoadExisting_correct_witness:
  "GetPort (LoadExisting ''ns/a'' 6 alloc_ex) = (GetPort alloc_ex)(''ns/a'' \<mapsto> 6) \<and>
   \<not> IsAllocated (LoadExisting ''ns/a'' 6 alloc_ex) 5"
  using LoadExisting_correct [OF alloc_ex_inv, of "''ns/a''" 6]
  by (simp add: alloc_ex_eq GetPort_def Let_def split: if_splits)

end
