(* ===== verification/Forwarder_Server.thy ===== *)
theory Forwarder_Server
  imports Proto Mem_Cluster Port_Allocator
begin

text \<open>
  The operator's configuration server, \<open>internal/grpc/server.go\<close>: the registered update
  streams with their bounded queues, the acknowledgements, the snapshot of \<open>GetConfig\<close>, and
  the life of a stream as a step relation in which any number of streams, notifications and
  acknowledgements interleave. The server's lock makes each operation one step.
\<close>

section \<open>State\<close>

definition gatewayPort :: int where "gatewayPort = 51820"

text \<open>The capacity of the channel that \<open>StreamUpdates\<close> makes.\<close>

definition updatesCap :: nat where "updatesCap = 64"

record forwarderStream =
  fs_id :: string
  fs_updates :: "TunnelUpdate list"
  fs_overflow :: bool

text \<open>
  \<open>streams\<close> is a set of pointers: a map from addresses to the streams they point to, with
  \<open>nextStream\<close> the next fresh address.
\<close>

record ForwarderServer =
  streams :: "(nat, forwarderStream) gomap"
  acks :: "string \<rightharpoonup> (string \<rightharpoonup> int)"
  legacyForwarderSeq :: nat
  nextStream :: nat

definition NewForwarderServer :: ForwarderServer where
  "NewForwarderServer =
     \<lparr>streams = [], acks = Map.empty, legacyForwarderSeq = 0, nextStream = 0\<rparr>"

datatype grpc_error =
    InvalidArgument
  | FailedPrecondition
  | ResourceExhausted
  | SendFailed string

section \<open>Streams\<close>

definition streamID :: "string \<Rightarrow> ForwarderServer \<Rightarrow> string \<times> ForwarderServer" where
  "streamID fid s =
     (if fid \<noteq> '''' then (fid, s)
      else let n = (legacyForwarderSeq s + 1) mod 2 ^ 64
           in (''legacy-'' @ Itoa (int n), s\<lparr>legacyForwarderSeq := n\<rparr>))"

definition addStream :: "nat \<Rightarrow> forwarderStream \<Rightarrow> ForwarderServer \<Rightarrow> ForwarderServer" where
  "addStream r st s = s\<lparr>streams := gm_set r st (streams s)\<rparr>"

definition connectedLocked :: "ForwarderServer \<Rightarrow> string \<Rightarrow> bool" where
  "connectedLocked s fid \<longleftrightarrow> list_ex (\<lambda>(r, st). fs_id st = fid) (streams s)"

definition removeStream :: "nat \<Rightarrow> string \<Rightarrow> ForwarderServer \<Rightarrow> ForwarderServer" where
  "removeStream r fid s =
     (let s1 = s\<lparr>streams := gm_del r (streams s)\<rparr>
      in if \<not> connectedLocked s1 fid then s1\<lparr>acks := (acks s1)(fid := None)\<rparr> else s1)"

text \<open>A send on the channel if there is room, else the overflow channel is closed once.\<close>

definition push_update :: "TunnelUpdate \<Rightarrow> forwarderStream \<Rightarrow> forwarderStream" where
  "push_update u st =
     (if length (fs_updates st) < updatesCap then st\<lparr>fs_updates := fs_updates st @ [u]\<rparr>
      else st\<lparr>fs_overflow := True\<rparr>)"

definition NotifyUpdate :: "TunnelUpdate option \<Rightarrow> ForwarderServer \<Rightarrow> ForwarderServer" where
  "NotifyUpdate update s =
     (case update of
        None \<Rightarrow> s
      | Some u \<Rightarrow> s\<lparr>streams := map (\<lambda>(r, st). (r, push_update u st)) (streams s)\<rparr>)"

section \<open>Acknowledgements\<close>

text \<open>A missing entry of either map reads as 0.\<close>

definition acked :: "ForwarderServer \<Rightarrow> string \<Rightarrow> string \<Rightarrow> int" where
  "acked s fid key = (case acks s fid of None \<Rightarrow> 0 | Some m \<Rightarrow> (case m key of None \<Rightarrow> 0 | Some r \<Rightarrow> r))"

definition Ack :: "AckRequest option \<Rightarrow> ForwarderServer \<Rightarrow> (grpc_error + unit) \<times> ForwarderServer" where
  "Ack request s =
     (let fid = AckForwarderId request in
      if fid = '''' \<or> AckTunnelName request = '''' \<or> AckTunnelNamespace request = ''''
      then (Inl InvalidArgument, s)
      else if \<not> connectedLocked s fid then (Inl FailedPrecondition, s)
      else
        let m = (case acks s fid of None \<Rightarrow> Map.empty | Some m \<Rightarrow> m);
            key = tunnelKey (AckTunnelNamespace request) (AckTunnelName request);
            m1 = (if AckRevision request > (case m key of None \<Rightarrow> 0 | Some r \<Rightarrow> r)
                  then m(key \<mapsto> AckRevision request) else m)
        in (Inr (), s\<lparr>acks := (acks s)(fid \<mapsto> m1)\<rparr>))"

definition MissingAcks :: "string \<Rightarrow> string \<Rightarrow> int \<Rightarrow> ForwarderServer \<Rightarrow> string list" where
  "MissingAcks namespace name revision s =
     (let key = tunnelKey namespace name;
          ids = remdups (map (\<lambda>(r, st). fs_id st) (streams s))
      in filter (\<lambda>fid. acked s fid key < revision) ids)"

section \<open>Snapshots\<close>

datatype config_error =
    ListingTunnels api_error
  | GettingGatewayPod string string api_error

definition tunnelMapping ::
  "'w KubeClient \<Rightarrow> Tunnel \<Rightarrow> 'w \<Rightarrow> (config_error + TunnelMapping) \<times> 'w" where
  "tunnelMapping K tunnel w =
     (let st = t_Status tunnel; port = Itoa gatewayPort;
          gatewayAddress0 = JoinHostPort (GatewayPodIP st) port;
          gatewayAddress1 = (if GatewayPodIP st = '''' then JoinHostPort (GatewayPodName st) port
                             else gatewayAddress0);
          mapping = (\<lambda>gatewayAddress.
            \<lparr>tm_TunnelName = Some (t_Name tunnel), tm_TunnelNamespace = Some (t_Namespace tunnel),
             tm_ForwarderPort = Some (ForwarderPort st), tm_GatewayAddress = Some gatewayAddress,
             tm_Revision = Some (MappingRevision st), tm_GatewayPodUid = Some (GatewayPodUID st),
             tm_GatewayPodIp = Some (GatewayPodIP st)\<rparr>)
      in if GatewayPodName st \<noteq> '''' \<and> GatewayPodIP st = '''' then
           (case kGetPod K \<lparr>ok_Namespace = t_Namespace tunnel, ok_Name = GatewayPodName st\<rparr> w of
              (Inr pod, w1) \<Rightarrow>
                if pod_PodIP pod \<noteq> '''' then (Inr (mapping (JoinHostPort (pod_PodIP pod) port)), w1)
                else (Inr (mapping gatewayAddress1), w1)
            | (Inl e, w1) \<Rightarrow>
                if IsNotFound e then (Inr (mapping gatewayAddress1), w1)
                else (Inl (GettingGatewayPod (t_Namespace tunnel) (GatewayPodName st) e), w1))
         else (Inr (mapping gatewayAddress1), w))"

text \<open>The first non-empty address of the load balancer's ingress list.\<close>

fun first_ingress :: "string list \<Rightarrow> string" where
  "first_ingress [] = ''''"
| "first_ingress (ip # ips) = (if ip \<noteq> '''' then ip else first_ingress ips)"

definition resolveVIP :: "'w KubeClient \<Rightarrow> ObjectKey \<Rightarrow> 'w \<Rightarrow> string \<times> 'w" where
  "resolveVIP K key w =
     (if ok_Name key = '''' then ('''', w)
      else case kGetService K key w of
          (Inl _, w1) \<Rightarrow> ('''', w1)
        | (Inr svc, w1) \<Rightarrow> (first_ingress (svc_IngressIPs svc), w1))"

text \<open>Tunnels that the loop of \<open>GetConfig\<close> skips.\<close>

definition skip_tunnel :: "Tunnel \<Rightarrow> bool" where
  "skip_tunnel tunnel \<longleftrightarrow>
     (let st = t_Status tunnel in
      t_DeletionTimestamp tunnel \<noteq> None \<or> Phase st = TunnelPhaseTerminated \<or>
      Phase st = TunnelPhaseFailed \<or> ForwarderPort st \<le> 0 \<or>
      GatewayPodIP st = '''' \<or> GatewayPublicKey st = '''')"

fun config_loop ::
  "'w KubeClient \<Rightarrow> Tunnel list \<Rightarrow> PortAllocator option \<Rightarrow> 'w \<Rightarrow>
   (config_error + TunnelMapping option list) \<times> PortAllocator option \<times> 'w" where
  "config_loop K [] al w = (Inr [], al, w)"
| "config_loop K (tunnel # tunnels) al w =
     (if skip_tunnel tunnel then config_loop K tunnels al w
      else
        let al1 = map_option (LoadExisting (tunnelKey (t_Namespace tunnel) (t_Name tunnel))
                    (ForwarderPort (t_Status tunnel))) al
        in case tunnelMapping K tunnel w of
            (Inl e, w1) \<Rightarrow> (Inl e, al1, w1)
          | (Inr m, w1) \<Rightarrow>
              (case config_loop K tunnels al1 w1 of
                 (Inl e, al2, w2) \<Rightarrow> (Inl e, al2, w2)
               | (Inr ms, al2, w2) \<Rightarrow> (Inr (Some m # ms), al2, w2)))"

definition GetConfig ::
  "'w KubeClient \<Rightarrow> ObjectKey \<Rightarrow> PortAllocator option \<Rightarrow> 'w \<Rightarrow>
   (config_error + ForwarderConfig) \<times> PortAllocator option \<times> 'w" where
  "GetConfig K serviceKey al w =
     (case kListTunnels K w of
        (Inl e, w1) \<Rightarrow> (Inl (ListingTunnels e), al, w1)
      | (Inr tunnels, w1) \<Rightarrow>
          (case config_loop K tunnels al w1 of
             (Inl e, al1, w2) \<Rightarrow> (Inl e, al1, w2)
           | (Inr mappings, al1, w2) \<Rightarrow>
               (case resolveVIP K serviceKey w2 of
                  (vip, w3) \<Rightarrow>
                    (Inr \<lparr>fc_LbVip = (if vip \<noteq> '''' then Some vip else None),
                          fc_Tunnels = mappings\<rparr>, al1, w3))))"

section \<open>The contract of an acknowledgement server\<close>

text \<open>
  What the reconciler relies on when it holds back the phase Ready, and what the forwarders
  rely on when they acknowledge. \<open>connected\<close> and \<open>acked_rev\<close> are the abstract state.
\<close>

abbreviation ack_key :: "AckRequest option \<Rightarrow> string" where
  "ack_key rq \<equiv> tunnelKey (AckTunnelNamespace rq) (AckTunnelName rq)"

abbreviation ack_valid :: "AckRequest option \<Rightarrow> bool" where
  "ack_valid rq \<equiv> AckForwarderId rq \<noteq> '''' \<and> AckTunnelName rq \<noteq> '''' \<and> AckTunnelNamespace rq \<noteq> ''''"

text \<open>The request that acknowledges one revision of one tunnel.\<close>

abbreviation ack_request :: "string \<Rightarrow> string \<Rightarrow> int \<Rightarrow> string \<Rightarrow> AckRequest option" where
  "ack_request ns n r f \<equiv> Some \<lparr>ar_ForwarderId = Some f, ar_TunnelName = Some n,
     ar_TunnelNamespace = Some ns, ar_Revision = Some r\<rparr>"

locale ack_server =
  fixes connected :: "'s \<Rightarrow> string \<Rightarrow> bool"
    and acked_rev :: "'s \<Rightarrow> string \<Rightarrow> string \<Rightarrow> int"
    and ack :: "AckRequest option \<Rightarrow> 's \<Rightarrow> (grpc_error + unit) \<times> 's"
    and missing :: "string \<Rightarrow> string \<Rightarrow> int \<Rightarrow> 's \<Rightarrow> string list"
    and notify :: "TunnelUpdate option \<Rightarrow> 's \<Rightarrow> 's"
  assumes missing_set:
      "set (missing ns n r s) = {f. connected s f \<and> acked_rev s f (tunnelKey ns n) < r}"
    and notify_connected: "connected (notify u s) = connected s"
    and notify_acked: "acked_rev (notify u s) = acked_rev s"
    and ack_connected: "connected (snd (ack rq s)) = connected s"
    and ack_ok: "fst (ack rq s) = Inr () \<longleftrightarrow> ack_valid rq \<and> connected s (AckForwarderId rq)"
    and ack_err: "fst (ack rq s) = Inl e \<Longrightarrow> snd (ack rq s) = s"
    and ack_acked: "fst (ack rq s) = Inr () \<Longrightarrow> acked_rev (snd (ack rq s)) f k =
      (if f = AckForwarderId rq \<and> k = ack_key rq
       then max (acked_rev s f k) (AckRevision rq) else acked_rev s f k)"
begin

lemma gate_iff:
  "missing ns n r s = [] \<longleftrightarrow> (\<forall>f. connected s f \<longrightarrow> r \<le> acked_rev s f (tunnelKey ns n))"
proof -
  have "missing ns n r s = [] \<longleftrightarrow> set (missing ns n r s) = {}" by simp
  also have "\<dots> \<longleftrightarrow> (\<forall>f. connected s f \<longrightarrow> r \<le> acked_rev s f (tunnelKey ns n))"
    unfolding missing_set by (auto simp: not_less)
  finally show ?thesis .
qed

lemma ack_mono: "acked_rev s f k \<le> acked_rev (snd (ack rq s)) f k"
proof (cases "fst (ack rq s)")
  case (Inl e)
  then show ?thesis by (simp add: ack_err)
next
  case (Inr u)
  then have "fst (ack rq s) = Inr ()" by simp
  from ack_acked [OF this, of f k] show ?thesis by simp
qed

lemma gate_stays_open:
  assumes "missing ns n r s = []"
  shows "missing ns n r (snd (ack rq s)) = []" "missing ns n r (notify u s) = []"
proof -
  have "r \<le> acked_rev (snd (ack rq s)) f (tunnelKey ns n)" if "connected s f" for f
    using assms that ack_mono [of s f "tunnelKey ns n" rq] by (auto simp: gate_iff)
  then show "missing ns n r (snd (ack rq s)) = []"
    by (simp add: gate_iff ack_connected)
  show "missing ns n r (notify u s) = []"
    using assms by (simp add: gate_iff notify_connected notify_acked)
qed

lemma acks_connected:
  "connected (fold (\<lambda>f s. snd (ack (ack_request ns n r f) s)) fs s) = connected s"
  by (induction fs arbitrary: s) (simp_all add: ack_connected)

lemma acks_mono:
  "acked_rev s f k \<le> acked_rev (fold (\<lambda>f s. snd (ack (ack_request ns n r f) s)) fs s) f k"
proof (induction fs arbitrary: s)
  case (Cons g fs)
  show ?case
    using ack_mono [of s f k "ack_request ns n r g"] Cons [of "snd (ack (ack_request ns n r g) s)"]
    by simp
qed simp

lemma acks_reach:
  assumes "ns \<noteq> ''''" "n \<noteq> ''''"
  shows "f \<in> set fs \<Longrightarrow> f \<noteq> '''' \<Longrightarrow> connected s f \<Longrightarrow>
    r \<le> acked_rev (fold (\<lambda>f s. snd (ack (ack_request ns n r f) s)) fs s) f (tunnelKey ns n)"
proof (induction fs arbitrary: s)
  case (Cons g fs)
  let ?t = "snd (ack (ack_request ns n r g) s)"
  show ?case
  proof (cases "f = g")
    case True
    have "fst (ack (ack_request ns n r f) s) = Inr ()"
      using assms Cons.prems by (simp add: ack_ok ack_getter_defs)
    from ack_acked [OF this, of f "tunnelKey ns n"] have "r \<le> acked_rev ?t f (tunnelKey ns n)"
      using True by (simp add: ack_getter_defs)
    with acks_mono [where s = ?t and f = f and k = "tunnelKey ns n" and ns = ns and n = n and r = r and fs = fs] show ?thesis
      by simp
  next
    case False
    with Cons show ?thesis by (simp add: ack_connected)
  qed
qed simp

lemma acks_open_gate:
  assumes "ns \<noteq> ''''" "n \<noteq> ''''" "\<And>f. connected s f \<Longrightarrow> f \<noteq> '''' \<and> f \<in> set fs"
  shows "missing ns n r (fold (\<lambda>f s. snd (ack (ack_request ns n r f) s)) fs s) = []"
  unfolding gate_iff acks_connected using acks_reach [OF assms(1,2)] assms(3) by blast

end

lemma connected_iff: "connectedLocked s f \<longleftrightarrow> (\<exists>(r, st) \<in> set (streams s). fs_id st = f)"
  by (auto simp: connectedLocked_def list_ex_iff)

lemma connected_streams:
  "connectedLocked s f \<longleftrightarrow> f \<in> set (map (\<lambda>(r, st). fs_id st) (streams s))"
  by (auto simp: connected_iff map_of_eq_Some_iff)

lemma push_update_id [simp]: "fs_id (push_update u st) = fs_id st"
  by (simp add: push_update_def)

lemma NotifyUpdate_ids:
  "map (\<lambda>(r, st). fs_id st) (streams (NotifyUpdate u s)) = map (\<lambda>(r, st). fs_id st) (streams s)"
  by (auto simp: NotifyUpdate_def split: option.split)

lemma NotifyUpdate_frame [simp]:
  "connectedLocked (NotifyUpdate u s) = connectedLocked s"
  "acks (NotifyUpdate u s) = acks s"
  "nextStream (NotifyUpdate u s) = nextStream s"
  by (simp add: connected_streams NotifyUpdate_ids fun_eq_iff del: set_map)
     (simp_all add: NotifyUpdate_def split: option.split)

lemma NotifyUpdate_get:
  "gm_get (streams (NotifyUpdate (Some u) s)) r = map_option (push_update u) (gm_get (streams s) r)"
  by (simp add: NotifyUpdate_def map_of_map)

lemma NotifyUpdate_keys [simp]: "gm_keys (streams (NotifyUpdate u s)) = gm_keys (streams s)"
  by (auto simp: NotifyUpdate_def split: option.split)

lemma Ack_streams [simp]:
  "streams (snd (Ack rq s)) = streams s" "nextStream (snd (Ack rq s)) = nextStream s"
  by (auto simp: Ack_def Let_def)

interpretation server: ack_server connectedLocked acked Ack MissingAcks NotifyUpdate
proof (unfold_locales, goal_cases)
  case (1 ns n r s)
  show ?case by (auto simp: MissingAcks_def connected_streams Let_def)
next
  case (2 u s)
  show ?case by simp
next
  case (3 u s)
  show ?case by (simp add: acked_def fun_eq_iff)
next
  case (4 rq s)
  show ?case by (simp add: connectedLocked_def fun_eq_iff)
next
  case (5 rq s)
  show ?case by (auto simp: Ack_def Let_def)
next
  case (6 rq s e)
  then show ?case by (auto simp: Ack_def Let_def split: if_splits)
next
  case (7 rq s f k)
  then show ?case
    by (auto simp: Ack_def Let_def acked_def max_def split: if_splits option.splits)
qed

section \<open>The life of a stream\<close>

text \<open>
  A call of \<open>StreamUpdates\<close> is a process. \<open>sp_sent\<close> is what the transport accepted, in order;
  \<open>sp_notified\<close> records, for the statements below only, the updates that \<open>NotifyUpdate\<close> was
  given since the stream was registered.
\<close>

datatype proc_state = Syncing | Running | Returned "grpc_error option"

record stream_proc =
  sp_id :: string
  sp_state :: proc_state
  sp_sent :: "TunnelUpdate list"
  sp_notified :: "TunnelUpdate list"

record grpc_sys =
  gs_srv :: ForwarderServer
  gs_procs :: "nat \<rightharpoonup> stream_proc"

definition sync_update :: TunnelUpdate where
  "sync_update = \<lparr>tu_Type = Some SYNC, tu_Tunnel = None\<rparr>"

text \<open>Entry of \<open>StreamUpdates\<close>: name the stream, make its channels, register it.\<close>

definition StreamUpdates_start :: "string \<Rightarrow> grpc_sys \<Rightarrow> grpc_sys" where
  "StreamUpdates_start forwarderId g =
     (case streamID forwarderId (gs_srv g) of
        (fid, s1) \<Rightarrow>
          (let r = nextStream s1;
               st = \<lparr>fs_id = fid, fs_updates = [], fs_overflow = False\<rparr>
           in \<lparr>gs_srv = (addStream r st s1)\<lparr>nextStream := Suc r\<rparr>,
               gs_procs = (gs_procs g)(r \<mapsto>
                 \<lparr>sp_id = fid, sp_state = Syncing, sp_sent = [], sp_notified = []\<rparr>)\<rparr>))"

text \<open>Return with the deferred \<open>removeStream\<close>.\<close>

definition StreamUpdates_return :: "nat \<Rightarrow> stream_proc \<Rightarrow> grpc_error option \<Rightarrow> grpc_sys \<Rightarrow> grpc_sys" where
  "StreamUpdates_return r p res g =
     \<lparr>gs_srv = removeStream r (sp_id p) (gs_srv g),
      gs_procs = (gs_procs g)(r \<mapsto> p\<lparr>sp_state := Returned res\<rparr>)\<rparr>"

text \<open>
  What can happen to a running call: the synchronisation message is sent or fails, and then
  any ready case of the \<open>select\<close>. An event that is not ready gives \<^const>\<open>None\<close>.
\<close>

datatype stream_event =
    SyncSent
  | SyncFailed string
  | ContextDone
  | OverflowClosed
  | UpdateSent
  | UpdateFailed string

fun StreamUpdates_event :: "stream_event \<Rightarrow> nat \<Rightarrow> grpc_sys \<Rightarrow> grpc_sys option" where
  "StreamUpdates_event e r g =
     (case (gs_procs g r, gm_get (streams (gs_srv g)) r) of
        (Some p, Some st) \<Rightarrow>
          (let pop = (\<lambda>us. (gs_srv g)\<lparr>streams := gm_set r (st\<lparr>fs_updates := us\<rparr>) (streams (gs_srv g))\<rparr>)
           in case (sp_state p, e) of
                (Syncing, SyncSent) \<Rightarrow>
                  Some (g\<lparr>gs_procs := (gs_procs g)(r \<mapsto>
                    p\<lparr>sp_state := Running, sp_sent := sp_sent p @ [sync_update]\<rparr>)\<rparr>)
              | (Syncing, SyncFailed m) \<Rightarrow> Some (StreamUpdates_return r p (Some (SendFailed m)) g)
              | (Running, ContextDone) \<Rightarrow> Some (StreamUpdates_return r p None g)
              | (Running, OverflowClosed) \<Rightarrow>
                  (if fs_overflow st then Some (StreamUpdates_return r p (Some ResourceExhausted) g) else None)
              | (Running, UpdateSent) \<Rightarrow>
                  (case fs_updates st of
                     [] \<Rightarrow> None
                   | u # us \<Rightarrow> Some \<lparr>gs_srv = pop us,
                        gs_procs = (gs_procs g)(r \<mapsto> p\<lparr>sp_sent := sp_sent p @ [u]\<rparr>)\<rparr>)
              | (Running, UpdateFailed m) \<Rightarrow>
                  (case fs_updates st of
                     [] \<Rightarrow> None
                   | u # us \<Rightarrow> Some (StreamUpdates_return r p (Some (SendFailed m)) (g\<lparr>gs_srv := pop us\<rparr>)))
              | _ \<Rightarrow> None)
      | _ \<Rightarrow> None)"

text \<open>\<open>NotifyUpdate\<close> with the history of the registered streams extended.\<close>

definition grpc_notify :: "TunnelUpdate \<Rightarrow> grpc_sys \<Rightarrow> grpc_sys" where
  "grpc_notify u g =
     \<lparr>gs_srv = NotifyUpdate (Some u) (gs_srv g),
      gs_procs = (\<lambda>r. if gm_get (streams (gs_srv g)) r = None then gs_procs g r
                      else map_option (\<lambda>p. p\<lparr>sp_notified := sp_notified p @ [u]\<rparr>) (gs_procs g r))\<rparr>"

inductive grpc_step :: "grpc_sys \<Rightarrow> grpc_sys \<Rightarrow> bool" where
  start: "grpc_step g (StreamUpdates_start fid g)"
| stream: "StreamUpdates_event e r g = Some h \<Longrightarrow> grpc_step g h"
| notify: "grpc_step g (grpc_notify u g)"
| ack: "grpc_step g (g\<lparr>gs_srv := snd (Ack rq (gs_srv g))\<rparr>)"

definition grpc_init :: "grpc_sys \<Rightarrow> bool" where
  "grpc_init g \<longleftrightarrow> g = \<lparr>gs_srv = NewForwarderServer, gs_procs = Map.empty\<rparr>"

section \<open>The invariant of the server with its streams\<close>

text \<open>The updates a stream has sent after the synchronisation message.\<close>

abbreviation sp_delivered :: "stream_proc \<Rightarrow> TunnelUpdate list" where
  "sp_delivered p \<equiv> tl (sp_sent p)"

text \<open>
  One registered stream: its queue is bounded; until it overflows, what was delivered and what
  is queued is what was notified; afterwards it is a subsequence of that.
\<close>

definition stream_ok :: "forwarderStream \<Rightarrow> stream_proc \<Rightarrow> bool" where
  "stream_ok st p \<longleftrightarrow>
     fs_id st = sp_id p \<and> sp_id p \<noteq> '''' \<and> length (fs_updates st) \<le> updatesCap \<and>
     (case sp_state p of
        Syncing \<Rightarrow> sp_sent p = []
      | Running \<Rightarrow> sp_sent p \<noteq> [] \<and> hd (sp_sent p) = sync_update
      | Returned _ \<Rightarrow> False) \<and>
     subseq (sp_delivered p @ fs_updates st) (sp_notified p) \<and>
     (\<not> fs_overflow st \<longrightarrow> sp_delivered p @ fs_updates st = sp_notified p)"

definition grpc_inv :: "grpc_sys \<Rightarrow> bool" where
  "grpc_inv g \<longleftrightarrow>
     gm_ok (streams (gs_srv g)) \<and>
     (\<forall>r st. gm_get (streams (gs_srv g)) r = Some st \<longrightarrow>
        r < nextStream (gs_srv g) \<and> (\<exists>p. gs_procs g r = Some p \<and> stream_ok st p)) \<and>
     (\<forall>r p. gs_procs g r = Some p \<longrightarrow> r < nextStream (gs_srv g)) \<and>
     (\<forall>f. acks (gs_srv g) f \<noteq> None \<longrightarrow> connectedLocked (gs_srv g) f)"

lemma grpc_invD:
  assumes "grpc_inv g"
  shows "gm_ok (streams (gs_srv g))"
    and "gm_get (streams (gs_srv g)) r = Some st \<Longrightarrow>
      r < nextStream (gs_srv g) \<and> (\<exists>p. gs_procs g r = Some p \<and> stream_ok st p)"
    and "gs_procs g r = Some p \<Longrightarrow> r < nextStream (gs_srv g)"
    and "acks (gs_srv g) f \<noteq> None \<Longrightarrow> connectedLocked (gs_srv g) f"
  using assms by (auto simp: grpc_inv_def)

lemma grpc_invI:
  assumes "gm_ok (streams (gs_srv g))"
    and "\<And>r st. gm_get (streams (gs_srv g)) r = Some st \<Longrightarrow>
      r < nextStream (gs_srv g) \<and> (\<exists>p. gs_procs g r = Some p \<and> stream_ok st p)"
    and "\<And>r p. gs_procs g r = Some p \<Longrightarrow> r < nextStream (gs_srv g)"
    and "\<And>f. acks (gs_srv g) f \<noteq> None \<Longrightarrow> connectedLocked (gs_srv g) f"
  shows "grpc_inv g"
  using assms unfolding grpc_inv_def by blast

lemma connected_get:
  "gm_ok (streams s) \<Longrightarrow>
   connectedLocked s f \<longleftrightarrow> (\<exists>r st. gm_get (streams s) r = Some st \<and> fs_id st = f)"
  by (auto simp: connected_iff map_of_eq_Some_iff)

lemma get_connected: "gm_get (streams s) r = Some st \<Longrightarrow> connectedLocked s (fs_id st)"
  by (auto simp: connected_iff dest!: map_of_SomeD)

lemma stream_ok_push:
  assumes "stream_ok st p"
  shows "stream_ok (push_update u st) (p\<lparr>sp_notified := sp_notified p @ [u]\<rparr>)"
proof -
  have sub: "subseq (sp_delivered p @ fs_updates st) (sp_notified p)"
    using assms by (simp add: stream_ok_def)
  have "subseq ((sp_delivered p @ fs_updates st) @ [u]) (sp_notified p @ [u])"
    using sub by (rule list_emb_append_mono) simp
  moreover have "subseq (sp_delivered p @ fs_updates st) (sp_notified p @ [u])"
    using sub by (rule subseq_rev_drop_many)
  ultimately show ?thesis
    using assms by (auto simp: stream_ok_def push_update_def split: proc_state.splits)
qed

lemma grpc_inv_start:
  assumes "grpc_inv g"
  shows "grpc_inv (StreamUpdates_start f g)"
proof -
  obtain i s1 where s1: "streamID f (gs_srv g) = (i, s1)" by force
  then have eq: "streams s1 = streams (gs_srv g)" "acks s1 = acks (gs_srv g)"
      "nextStream s1 = nextStream (gs_srv g)" "i \<noteq> ''''"
    by (auto simp: streamID_def Let_def split: if_splits)
  note inv = grpc_invD [OF assms]
  have "connectedLocked (gs_srv (StreamUpdates_start f g)) h" if "connectedLocked (gs_srv g) h" for h
    using that inv(1,2) s1 eq
    by (auto simp: connected_get StreamUpdates_start_def Let_def addStream_def) (metis less_irrefl)
  then show ?thesis
    using inv s1 eq unfolding grpc_inv_def
    by (auto simp: StreamUpdates_start_def Let_def addStream_def stream_ok_def less_SucI)
qed

lemma return_after_pop:
  "StreamUpdates_return r p res
     (g\<lparr>gs_srv := (gs_srv g)\<lparr>streams := gm_set r v (streams (gs_srv g))\<rparr>\<rparr>) =
   StreamUpdates_return r p res g"
  by (simp add: StreamUpdates_return_def removeStream_def delete_update_same connectedLocked_def Let_def)

lemma removeStream_simps:
  "streams (removeStream r f s) = gm_del r (streams s)"
  "nextStream (removeStream r f s) = nextStream s"
  "acks (removeStream r f s) h =
     (if h = f \<and> \<not> connectedLocked (removeStream r f s) f then None else acks s h)"
  "connectedLocked (removeStream r f s) = connectedLocked (s\<lparr>streams := gm_del r (streams s)\<rparr>)"
  by (auto simp: removeStream_def Let_def connectedLocked_def)

lemma removeStream_connected:
  assumes "gm_ok (streams s)" "gm_get (streams s) r = Some st" "h \<noteq> fs_id st"
  shows "connectedLocked (removeStream r f s) h \<longleftrightarrow> connectedLocked s h"
proof -
  have "connectedLocked (removeStream r f s) h \<longleftrightarrow>
      (\<exists>q st. gm_get (gm_del r (streams s)) q = Some st \<and> fs_id st = h)"
    using assms(1) connected_get [of "s\<lparr>streams := gm_del r (streams s)\<rparr>" h]
    by (simp add: removeStream_simps)
  also have "\<dots> \<longleftrightarrow> (\<exists>q st. gm_get (streams s) q = Some st \<and> fs_id st = h)"
    using assms(2,3) by (auto) (metis option.inject)
  also have "\<dots> \<longleftrightarrow> connectedLocked s h"
    using connected_get [OF assms(1), of h] by simp
  finally show ?thesis .
qed

lemma grpc_inv_return:
  assumes "grpc_inv g" "gs_procs g r = Some p" "gm_get (streams (gs_srv g)) r = Some st"
  shows "grpc_inv (StreamUpdates_return r p res g)"
proof -
  note inv = grpc_invD [OF assms(1)]
  let ?s = "removeStream r (sp_id p) (gs_srv g)"
  have fid: "fs_id st = sp_id p"
    using inv(2) [OF assms(3)] assms(2) by (auto simp: stream_ok_def)
  have conn: "connectedLocked ?s f" if "acks ?s f \<noteq> None" for f
  proof (cases "f = sp_id p")
    case True
    with that show ?thesis by (simp add: removeStream_simps split: if_splits)
  next
    case False
    with that inv(4) [of f] show ?thesis
      using removeStream_connected [OF inv(1) assms(3), of f "sp_id p"] fid
      by (simp add: removeStream_simps)
  qed
  show ?thesis
  proof (rule grpc_invI, goal_cases)
    case 1
    then show ?case using inv(1) by (simp add: StreamUpdates_return_def removeStream_simps)
  next
    case (2 r' st')
    then show ?case
      using inv(2) [of r' st'] by (simp add: StreamUpdates_return_def removeStream_simps split: if_splits)
  next
    case (3 r' q)
    then show ?case
      using inv(3) [of r'] assms(2)
      by (simp add: StreamUpdates_return_def removeStream_simps split: if_splits)
  next
    case (4 f)
    then show ?case using conn [of f] by (simp add: StreamUpdates_return_def)
  qed
qed

lemma grpc_inv_update:
  assumes "grpc_inv g" "gm_get (streams (gs_srv g)) r = Some st"
    and "fs_id st' = fs_id st" "stream_ok st' p'"
  shows "grpc_inv \<lparr>gs_srv = (gs_srv g)\<lparr>streams := gm_set r st' (streams (gs_srv g))\<rparr>,
                   gs_procs = (gs_procs g)(r \<mapsto> p')\<rparr>"
proof -
  note inv = grpc_invD [OF assms(1)]
  let ?m = "gm_set r st' (streams (gs_srv g))"
  have conn: "connectedLocked ((gs_srv g)\<lparr>streams := ?m\<rparr>) f" if c: "connectedLocked (gs_srv g) f" for f
  proof -
    obtain q sq where "gm_get (streams (gs_srv g)) q = Some sq" "fs_id sq = f"
      using c connected_get [OF inv(1), of f] by auto
    then have "\<exists>sq. gm_get ?m q = Some sq \<and> fs_id sq = f"
      using assms(2,3) by (cases "q = r") simp_all
    then have "\<exists>q sq. gm_get ?m q = Some sq \<and> fs_id sq = f" by (rule exI)
    then show ?thesis
      using connected_get [of "(gs_srv g)\<lparr>streams := ?m\<rparr>" f] inv(1)
      by simp
  qed
  have r: "r < nextStream (gs_srv g)" using inv(2) [OF assms(2)] by simp
  show ?thesis
  proof (rule grpc_invI, goal_cases)
    case 1
    then show ?case using inv(1) by simp
  next
    case (2 q sq)
    then show ?case using inv(2) [of q sq] r assms(4) by (simp split: if_splits)
  next
    case (3 q p)
    then show ?case using inv(3) [of q p] r by (simp split: if_splits)
  next
    case (4 f)
    then show ?case using conn [of f] inv(4) [of f] by simp
  qed
qed

lemma grpc_inv_event:
  assumes "grpc_inv g" "StreamUpdates_event e r g = Some h"
  shows "grpc_inv h"
proof -
  obtain p st where p: "gs_procs g r = Some p" and st: "gm_get (streams (gs_srv g)) r = Some st"
    using assms(2) by (auto split: option.splits)
  have ok: "stream_ok st p" using grpc_invD(2) [OF assms(1) st] p by auto
  have ret: "grpc_inv (StreamUpdates_return r p res g)" for res
    using assms(1) p st by (rule grpc_inv_return)
  have same: "\<lparr>gs_srv = (gs_srv g)\<lparr>streams := gm_set r st (streams (gs_srv g))\<rparr>, gs_procs = q\<rparr> = g\<lparr>gs_procs := q\<rparr>" for q
    using st by (simp add: update_triv)
  show ?thesis
  proof (cases "sp_state p")
    case Syncing
    then have "stream_ok st (p\<lparr>sp_state := Running, sp_sent := sp_sent p @ [sync_update]\<rparr>)"
      using ok by (auto simp: stream_ok_def)
    from grpc_inv_update [OF assms(1) st refl this]
    have "grpc_inv (g\<lparr>gs_procs := (gs_procs g)(r \<mapsto> p\<lparr>sp_state := Running, sp_sent := sp_sent p @ [sync_update]\<rparr>)\<rparr>)"
      unfolding same .
    with Syncing assms(2) p st ret show ?thesis
      by (auto split: stream_event.splits)
  next
    case Running
    have "stream_ok (st\<lparr>fs_updates := us\<rparr>) (p\<lparr>sp_sent := sp_sent p @ [u]\<rparr>)"
      if "fs_updates st = u # us" for u us
      using ok Running that by (auto simp: stream_ok_def)
    with grpc_inv_update [OF assms(1) st]
    have "grpc_inv \<lparr>gs_srv = (gs_srv g)\<lparr>streams := gm_set r (st\<lparr>fs_updates := us\<rparr>) (streams (gs_srv g))\<rparr>,
        gs_procs = (gs_procs g)(r \<mapsto> p\<lparr>sp_sent := sp_sent p @ [u]\<rparr>)\<rparr>"
      if "fs_updates st = u # us" for u us
      using that by simp
    with Running assms(2) p st ret show ?thesis
      by (auto simp: return_after_pop split: stream_event.splits if_splits list.splits)
  next
    case (Returned x)
    with ok show ?thesis by (simp add: stream_ok_def)
  qed
qed

lemma grpc_inv_notify:
  assumes "grpc_inv g"
  shows "grpc_inv (grpc_notify u g)"
proof (rule grpc_invI, goal_cases)
  case 1
  then show ?case using grpc_invD(1) [OF assms] by (simp add: grpc_notify_def)
next
  case (2 r st)
  then obtain st0 where st0: "gm_get (streams (gs_srv g)) r = Some st0" "st = push_update u st0"
    by (auto simp: grpc_notify_def NotifyUpdate_get)
  with grpc_invD(2) [OF assms st0(1)] show ?case
    by (auto simp: grpc_notify_def stream_ok_push)
next
  case (3 r p)
  then show ?case using grpc_invD(3) [OF assms, of r] by (auto simp: grpc_notify_def split: if_splits)
next
  case (4 f)
  then show ?case using grpc_invD(4) [OF assms, of f] by (simp add: grpc_notify_def)
qed

lemma grpc_inv_ack:
  assumes "grpc_inv g"
  shows "grpc_inv (g\<lparr>gs_srv := snd (Ack rq (gs_srv g))\<rparr>)"
proof (rule grpc_invI, goal_cases)
  case (4 f)
  have "connectedLocked (gs_srv g) f"
    using 4 grpc_invD(4) [OF assms, of f] by (auto simp: Ack_def Let_def split: if_splits)
  then show ?case by (simp add: server.ack_connected)
qed (use grpc_invD(1-3) [OF assms] in simp_all)

interpretation grpc_machine: state_machine grpc_init grpc_step grpc_inv
proof (unfold_locales, goal_cases)
  case (1 g)
  then show ?case by (simp add: grpc_init_def grpc_inv_def NewForwarderServer_def)
next
  case (2 g h)
  from 2(2,1) show ?case
    by cases (auto intro: grpc_inv_start grpc_inv_event grpc_inv_notify grpc_inv_ack simp del: StreamUpdates_event.simps)
qed

section \<open>Properties of streams and acknowledgements\<close>

text \<open>A run for the witnesses: a forwarder connects, is synchronised, and is sent an update.\<close>

definition sample_update :: TunnelUpdate where
  "sample_update = \<lparr>tu_Type = Some MODIFIED,
     tu_Tunnel = Some (full_mapping ''a'' ''ns'' 5 ''10.1.0.4:51820'' 3 ''uid-0'' ''10.1.0.4'')\<rparr>"

definition grpc_ex0 :: grpc_sys where
  "grpc_ex0 = \<lparr>gs_srv = NewForwarderServer, gs_procs = Map.empty\<rparr>"

definition grpc_ex1 :: grpc_sys where
  "grpc_ex1 = StreamUpdates_start ''fwd-0'' grpc_ex0"

definition grpc_ex2 :: grpc_sys where
  "grpc_ex2 = grpc_notify sample_update (the (StreamUpdates_event SyncSent 0 grpc_ex1))"

lemma grpc_ex1_eq:
  "grpc_ex1 =
     \<lparr>gs_srv = \<lparr>streams = [(0, \<lparr>fs_id = ''fwd-0'', fs_updates = [], fs_overflow = False\<rparr>)],
        acks = Map.empty, legacyForwarderSeq = 0, nextStream = 1\<rparr>,
      gs_procs = [0 \<mapsto> \<lparr>sp_id = ''fwd-0'', sp_state = Syncing, sp_sent = [], sp_notified = []\<rparr>]\<rparr>"
  by (simp add: grpc_ex1_def grpc_ex0_def StreamUpdates_start_def NewForwarderServer_def
      streamID_def addStream_def Let_def)

lemma grpc_ex2_eq:
  "grpc_ex2 =
     \<lparr>gs_srv = \<lparr>streams = [(0, \<lparr>fs_id = ''fwd-0'', fs_updates = [sample_update], fs_overflow = False\<rparr>)],
        acks = Map.empty, legacyForwarderSeq = 0, nextStream = 1\<rparr>,
      gs_procs = [0 \<mapsto> \<lparr>sp_id = ''fwd-0'', sp_state = Running, sp_sent = [sync_update],
        sp_notified = [sample_update]\<rparr>]\<rparr>"
  by (simp add: grpc_ex2_def grpc_ex1_eq grpc_notify_def NotifyUpdate_def push_update_def
      updatesCap_def fun_eq_iff)

lemma grpc_ex_reach:
  "reach grpc_init grpc_step grpc_ex0" "reach grpc_init grpc_step grpc_ex1"
  "reach grpc_init grpc_step grpc_ex2"
proof -
  show r0: "reach grpc_init grpc_step grpc_ex0"
    by (rule reach_init) (simp add: grpc_init_def grpc_ex0_def)
  then show r1: "reach grpc_init grpc_step grpc_ex1"
    unfolding grpc_ex1_def by (rule reach_step) (rule grpc_step.start)
  obtain g where g: "StreamUpdates_event SyncSent 0 grpc_ex1 = Some g"
    by (simp add: grpc_ex1_eq)
  with r1 have "reach grpc_init grpc_step g"
    by (intro reach_step [OF r1] grpc_step.stream)
  then show "reach grpc_init grpc_step grpc_ex2"
    unfolding grpc_ex2_def g option.sel by (rule reach_step) (rule grpc_step.notify)
qed

text \<open>
  C8: no update is lost silently. For a registered stream the queue never exceeds the
  channel's capacity and the first message on the wire is the synchronisation marker. Until
  the stream has overflowed, the updates sent followed by the updates queued are exactly the
  updates notified since registration, in order. Once it has overflowed, a running call can
  return \<open>ResourceExhausted\<close>, which unregisters the stream and makes the client resynchronise.
\<close>

theorem stream_no_silent_loss:
  assumes "reach grpc_init grpc_step g"
    and "gs_procs g r = Some p" "gm_get (streams (gs_srv g)) r = Some st"
  shows "length (fs_updates st) \<le> 64 \<and>
    (sp_sent p = [] \<or> hd (sp_sent p) = sync_update) \<and>
    (if fs_overflow st
     then subseq (tl (sp_sent p) @ fs_updates st) (sp_notified p) \<and>
          (sp_state p = Running \<longrightarrow>
            (\<exists>h. StreamUpdates_event OverflowClosed r g = Some h \<and>
                 gs_procs h r = Some (p\<lparr>sp_state := Returned (Some ResourceExhausted)\<rparr>) \<and>
                 gm_get (streams (gs_srv h)) r = None))
     else tl (sp_sent p) @ fs_updates st = sp_notified p)"
proof -
  have "grpc_inv g" by (rule grpc_machine.reach_inv [OF assms(1)])
  from grpc_invD(2) [OF this assms(3)] assms(2) have "stream_ok st p" by auto
  then show ?thesis
    using assms(2,3)
    by (auto simp: stream_ok_def updatesCap_def StreamUpdates_return_def removeStream_simps
        split: proc_state.splits)
qed

theorem stream_no_silent_loss_witness:
  "tl (sp_sent (the (gs_procs grpc_ex2 0))) @ [sample_update] = sp_notified (the (gs_procs grpc_ex2 0))"
proof -
  have "gs_procs grpc_ex2 0 = Some (the (gs_procs grpc_ex2 0))"
    "gm_get (streams (gs_srv grpc_ex2)) 0 =
      Some \<lparr>fs_id = ''fwd-0'', fs_updates = [sample_update], fs_overflow = False\<rparr>"
    by (simp_all add: grpc_ex2_eq)
  from stream_no_silent_loss [OF grpc_ex_reach(3) this] show ?thesis by simp
qed



text \<open>
  C27: \<open>Ack\<close> on every branch. A request without a forwarder, tunnel or namespace is an invalid
  argument and one from a forwarder that is not connected a failed precondition, and neither
  changes anything. Otherwise the recorded revision of this forwarder and tunnel becomes the
  larger of the old and the acknowledged one (a late acknowledgement never lowers it) and
  nothing else changes.
\<close>

theorem Ack_correct:
  "case Ack rq s of
     (Inl e, t) \<Rightarrow>
       t = s \<and> \<not> (ack_valid rq \<and> connectedLocked s (AckForwarderId rq)) \<and>
       e = (if ack_valid rq then FailedPrecondition else InvalidArgument)
   | (Inr _, t) \<Rightarrow>
       ack_valid rq \<and> connectedLocked s (AckForwarderId rq) \<and> streams t = streams s \<and>
       (\<forall>f k. acked t f k =
          (if f = AckForwarderId rq \<and> k = ack_key rq
           then max (acked s f k) (AckRevision rq) else acked s f k))"
proof (cases "Ack rq s")
  case (Pair x t)
  then have t: "t = snd (Ack rq s)" and x: "x = fst (Ack rq s)" by simp_all
  show ?thesis
  proof (cases x)
    case (Inl e)
    then show ?thesis
      using Pair by (auto simp: Ack_def Let_def split: if_splits)
  next
    case (Inr u)
    with x have ok: "fst (Ack rq s) = Inr ()" by simp
    have "\<forall>f k. acked t f k = (if f = AckForwarderId rq \<and> k = ack_key rq
        then max (acked s f k) (AckRevision rq) else acked s f k)"
      unfolding t using server.ack_acked [OF ok] by blast
    moreover have "streams t = streams s" unfolding t by (rule Ack_streams)
    moreover have "ack_valid rq \<and> connectedLocked s (AckForwarderId rq)"
      using server.ack_ok ok by blast
    ultimately show ?thesis
      unfolding Pair Inr prod.case sum.case by blast
  qed
qed

section \<open>Properties of snapshots\<close>

text \<open>The mapping of a tunnel with a gateway address, as a snapshot carries it.\<close>

definition snapshot_mapping :: "Tunnel \<Rightarrow> TunnelMapping" where
  "snapshot_mapping t =
     full_mapping (t_Name t) (t_Namespace t) (ForwarderPort (t_Status t))
       (JoinHostPort (GatewayPodIP (t_Status t)) (Itoa gatewayPort)) (MappingRevision (t_Status t))
       (GatewayPodUID (t_Status t)) (GatewayPodIP (t_Status t))"

lemma tunnelMapping_with_ip:
  "GatewayPodIP (t_Status t) \<noteq> '''' \<Longrightarrow> tunnelMapping K t w = (Inr (snapshot_mapping t), w)"
  by (simp add: tunnelMapping_def snapshot_mapping_def full_mapping_def Let_def)

abbreviation load_tunnel :: "Tunnel \<Rightarrow> PortAllocator \<Rightarrow> PortAllocator" where
  "load_tunnel t \<equiv> LoadExisting (tunnelKey (t_Namespace t) (t_Name t)) (ForwarderPort (t_Status t))"

lemma config_loop_eq:
  "config_loop K ts al w =
     (Inr (map (Some \<circ> snapshot_mapping) (filter (Not \<circ> skip_tunnel) ts)),
      map_option (fold load_tunnel (filter (Not \<circ> skip_tunnel) ts)) al, w)"
proof (induction ts arbitrary: al)
  case Nil
  then show ?case by (cases al) simp_all
next
  case (Cons t ts)
  have "tunnelMapping K t w = (Inr (snapshot_mapping t), w)" if "\<not> skip_tunnel t"
    using that by (intro tunnelMapping_with_ip) (simp add: skip_tunnel_def Let_def)
  with Cons show ?case
    by (cases al) (simp_all add: Let_def)
qed


end
