(* ===== verification/Tunnel_Controller.thy ===== *)
theory Tunnel_Controller
  imports Gateway_Resources Forwarder_Server
begin

text \<open>
  The reconciler of \<open>internal/controller/tunnel_controller.go\<close>, handler by handler. Its
  configuration is \<open>TunnelReconciler\<close>; what a reconciliation changes is \<open>operator\<close>: the
  cluster, the port allocator, the configuration server and the metrics. The Kubernetes
  client, the fetcher of the gateway's status, the HTTP client, the environment and the
  random draw of the allocator are arguments.
\<close>

section \<open>State and errors\<close>

text \<open>An HTTP answer: the status code and the decoded \<open>publicKey\<close>, or the decoding error.\<close>

record http_response =
  hr_StatusCode :: int
  hr_PublicKey :: "string + string"

record 'w TunnelReconciler =
  Client :: "'w KubeClient"
  ForwarderServiceKey :: ObjectKey
  ForwarderVIP :: string
  FetchGatewayStatus :: "(string \<Rightarrow> 'w \<Rightarrow> (string + string) \<times> 'w) option"
  HttpGet :: "string \<Rightarrow> 'w \<Rightarrow> (string + http_response) \<times> 'w"
  Getenv :: "string \<Rightarrow> string"

record 'w operator =
  op_World :: 'w
  op_PortAllocator :: "PortAllocator option"
  op_ForwarderServer :: "ForwarderServer option"
  reconciliationsTotal :: "string \<Rightarrow> int"
  tunnelsActive :: "string \<times> string \<Rightarrow> int"
  portAllocationsActive :: int

datatype reconcile_error =
    ClientError api_error
  | ValidatingTarget target_error
  | GettingGatewayPodFailed api_error
  | SettingPodOwner string
  | CreatingGatewayPod api_error
  | ReconcilingNetworkPolicy string
  | AllocatingForwarderPort alloc_error
  | UpdatingTunnelStatus api_error
  | RemovingFinalizer api_error
  | DeletingPod api_error
  | DeletingNetworkPolicy api_error

definition forwarderAckRequeue :: int where "forwarderAckRequeue = 2 * second"

abbreviation tunnel_key :: "Tunnel \<Rightarrow> string" where
  "tunnel_key t \<equiv> tunnelKey (t_Namespace t) (t_Name t)"

abbreviation set_world :: "'w \<Rightarrow> 'w operator \<Rightarrow> 'w operator" where
  "set_world w s \<equiv> s\<lparr>op_World := w\<rparr>"

section \<open>Gateway pod and network policy\<close>

definition ensureGatewayPod ::
  "'w TunnelReconciler \<Rightarrow> Tunnel \<Rightarrow> string \<Rightarrow> (string, string) gomap \<Rightarrow> 'w \<Rightarrow>
   (reconcile_error + Pod) \<times> 'w" where
  "ensureGatewayPod r tunnel resourceName labels w =
     (let img0 = Getenv r ''GATEWAY_IMAGE'';
          gatewayImage =
            (if img0 = '''' then ''europe-north1-docker.pkg.dev/nais-io/nais/images/tunnel-operator-gateway:latest''
             else img0);
          deadlineSeconds =
            (case ts_ActiveDeadlineSeconds (t_Spec tunnel) of None \<Rightarrow> 3600 | Some d \<Rightarrow> d)
      in case kGetPod (Client r) \<lparr>ok_Namespace = t_Namespace tunnel, ok_Name = resourceName\<rparr> w of
          (Inr pod, w1) \<Rightarrow> (Inr pod, w1)
        | (Inl e, w1) \<Rightarrow>
            if \<not> IsNotFound e then (Inl (GettingGatewayPodFailed e), w1)
            else
              let pod = \<lparr>pod_Name = resourceName, pod_Namespace = t_Namespace tunnel, pod_UID = '''',
                         pod_Labels = labels,
                         pod_Annotations = [(''prometheus.io/scrape'', ''true''),
                           (''prometheus.io/port'', ''8090''), (''prometheus.io/path'', ''/metrics'')],
                         pod_Owner = None,
                         pod_Spec = gatewayPodSpec (Getenv r) tunnel gatewayImage deadlineSeconds,
                         pod_Phase = '''', pod_PodIP = '''', pod_Conditions = []\<rparr>
              in case kSetPodOwner (Client r) tunnel pod of
                  Inl m \<Rightarrow> (Inl (SettingPodOwner m), w1)
                | Inr pod1 \<Rightarrow>
                    (case kCreatePod (Client r) pod1 w1 of
                       (Inl e, w2) \<Rightarrow> (Inl (CreatingGatewayPod e), w2)
                     | (Inr pod2, w2) \<Rightarrow> (Inr pod2, w2)))"

definition ensureNetworkPolicy ::
  "'w TunnelReconciler \<Rightarrow> Tunnel \<Rightarrow> string \<Rightarrow> (string, string) gomap \<Rightarrow> 'w \<Rightarrow>
   reconcile_error option \<times> 'w" where
  "ensureNetworkPolicy r tunnel resourceName labels w =
     (case kCreateOrUpdateNetworkPolicy (Client r)
             \<lparr>ok_Namespace = t_Namespace tunnel, ok_Name = resourceName\<rparr>
             (\<lambda>np. kSetNetworkPolicyOwner (Client r) tunnel (networkPolicyFor tunnel labels np)) w of
        (Some m, w1) \<Rightarrow> (Some (ReconcilingNetworkPolicy m), w1)
      | (None, w1) \<Rightarrow> (None, w1))"

section \<open>The forwarder's address and the gateway's status\<close>

definition resolveForwarderVIP :: "'w TunnelReconciler \<Rightarrow> 'w \<Rightarrow> string option \<times> 'w" where
  "resolveForwarderVIP r w =
     (if ForwarderVIP r \<noteq> '''' then (Some (ForwarderVIP r), w)
      else if ok_Name (ForwarderServiceKey r) = '''' then (None, w)
      else case kGetService (Client r) (ForwarderServiceKey r) w of
          (Inl _, w1) \<Rightarrow> (None, w1)
        | (Inr svc, w1) \<Rightarrow>
            (let ip = first_ingress (svc_IngressIPs svc) in (if ip \<noteq> '''' then Some ip else None), w1))"

definition defaultFetchGatewayStatus :: "'w TunnelReconciler \<Rightarrow> string \<Rightarrow> 'w \<Rightarrow> (string + string) \<times> 'w" where
  "defaultFetchGatewayStatus r podIP w =
     (case HttpGet r (''http://'' @ podIP @ '':'' @ Itoa gatewayStatusPort @ ''/status'') w of
        (Inl e, w1) \<Rightarrow> (Inl e, w1)
      | (Inr resp, w1) \<Rightarrow>
          if hr_StatusCode resp \<noteq> 200
          then (Inl (''gateway not ready: HTTP '' @ Itoa (hr_StatusCode resp)), w1)
          else case hr_PublicKey resp of
              Inl e \<Rightarrow> (Inl (''decoding gateway status: '' @ e), w1)
            | Inr key \<Rightarrow> (Inr key, w1))"

definition fetcher :: "'w TunnelReconciler \<Rightarrow> string \<Rightarrow> 'w \<Rightarrow> (string + string) \<times> 'w" where
  "fetcher r = (case FetchGatewayStatus r of None \<Rightarrow> defaultFetchGatewayStatus r | Some f \<Rightarrow> f)"

section \<open>Notifications\<close>

definition update_for :: "UpdateType \<Rightarrow> Tunnel \<Rightarrow> TunnelUpdate" where
  "update_for updateType tunnel =
     (let st = t_Status tunnel in
      \<lparr>tu_Type = Some updateType,
       tu_Tunnel = Some
         \<lparr>tm_TunnelName = Some (t_Name tunnel), tm_TunnelNamespace = Some (t_Namespace tunnel),
          tm_ForwarderPort = Some (ForwarderPort st),
          tm_GatewayAddress = Some (JoinHostPort (GatewayPodIP st) (Itoa 51820)),
          tm_Revision = Some (MappingRevision st), tm_GatewayPodUid = Some (GatewayPodUID st),
          tm_GatewayPodIp = Some (GatewayPodIP st)\<rparr>\<rparr>)"

definition notifyTunnelUpdate :: "Tunnel \<Rightarrow> UpdateType \<Rightarrow> 'w operator \<Rightarrow> 'w operator" where
  "notifyTunnelUpdate tunnel updateType s =
     (let st = t_Status tunnel in
      case op_ForwarderServer s of
        None \<Rightarrow> s
      | Some srv \<Rightarrow>
          if ForwarderPort st \<le> 0 then s
          else if updateType \<noteq> DELETED \<and> (GatewayPodIP st = '''' \<or> GatewayPublicKey st = '''') then s
          else s\<lparr>op_ForwarderServer := Some (NotifyUpdate (Some (update_for updateType tunnel)) srv)\<rparr>)"

section \<open>Phases\<close>

text \<open>The end of \<open>handleReadyPod\<close>, from the lookup of the forwarder's address on.\<close>

definition updateEndpoint ::
  "'w TunnelReconciler \<Rightarrow> Tunnel \<Rightarrow> bool \<Rightarrow> int \<Rightarrow> 'w operator \<Rightarrow> (Tunnel \<times> bool \<times> int) \<times> 'w operator" where
  "updateEndpoint r tunnel updated requeueAfter s =
     (case resolveForwarderVIP r (op_World s) of
        (Some vip, w1) \<Rightarrow>
          (if vip \<noteq> '''' then
             let endpoint = JoinHostPort vip (Itoa (ForwarderPort (t_Status tunnel))) in
             if ForwarderEndpoint (t_Status tunnel) \<noteq> endpoint
             then ((with_status (\<lambda>st. st\<lparr>ForwarderEndpoint := endpoint\<rparr>) tunnel, True, requeueAfter),
                   set_world w1 s)
             else ((tunnel, updated, requeueAfter), set_world w1 s)
           else ((tunnel, updated, requeueAfter), set_world w1 s))
      | (None, w1) \<Rightarrow> ((tunnel, updated, 2 * second), set_world w1 s))"

definition handleReadyPod ::
  "'w TunnelReconciler \<Rightarrow> Tunnel \<Rightarrow> Pod \<Rightarrow> 'w operator \<Rightarrow> (Tunnel \<times> bool \<times> int) \<times> 'w operator" where
  "handleReadyPod r tunnel pod s =
     (if pod_PodIP pod = '''' then updateEndpoint r tunnel False 0 s
      else case fetcher r (pod_PodIP pod) (op_World s) of
             (Inl e, w1) \<Rightarrow> updateEndpoint r tunnel False (2 * second) (set_world w1 s)
           | (Inr pubKey, w1) \<Rightarrow>
               if pubKey = '''' then updateEndpoint r tunnel False 0 (set_world w1 s)
               else
                 let s1 = set_world w1 s;
                     updated1 = (GatewayPublicKey (t_Status tunnel) \<noteq> pubKey);
                     tunnel1 = with_status (\<lambda>st. st\<lparr>GatewayPublicKey := pubKey\<rparr>) tunnel;
                     missing = (case op_ForwarderServer s1 of
                        None \<Rightarrow> []
                      | Some srv \<Rightarrow> MissingAcks (t_Namespace tunnel) (t_Name tunnel)
                                      (MappingRevision (t_Status tunnel)) srv)
                 in if missing \<noteq> [] then
                      (if Phase (t_Status tunnel1) \<noteq> TunnelPhaseProvisioning \<or>
                          Message (t_Status tunnel1) \<noteq> ''Waiting for forwarder mapping acknowledgement''
                       then ((with_status (\<lambda>st. st\<lparr>Phase := TunnelPhaseProvisioning,
                                Message := ''Waiting for forwarder mapping acknowledgement''\<rparr>) tunnel1,
                              True, forwarderAckRequeue), s1)
                       else ((tunnel1, updated1, forwarderAckRequeue), s1))
                    else if Phase (t_Status tunnel1) \<noteq> TunnelPhaseReady \<or>
                            Message (t_Status tunnel1) \<noteq> ''Gateway ready''
                    then updateEndpoint r (with_status (\<lambda>st. st\<lparr>Phase := TunnelPhaseReady,
                           Message := ''Gateway ready''\<rparr>) tunnel1) True 0 s1
                    else updateEndpoint r tunnel1 updated1 0 s1)"

definition evaluatePodPhase ::
  "'w TunnelReconciler \<Rightarrow> Tunnel \<Rightarrow> Pod \<Rightarrow> 'w operator \<Rightarrow> (Tunnel \<times> bool \<times> int) \<times> 'w operator" where
  "evaluatePodPhase r tunnel pod s =
     (let st = t_Status tunnel in
      if pod_Phase pod = ''Failed'' then
        (if Phase st \<noteq> TunnelPhaseFailed
         then ((with_status (\<lambda>st. st\<lparr>Phase := TunnelPhaseFailed, Message := ''Gateway pod failed''\<rparr>) tunnel,
                True, 0), s)
         else ((tunnel, False, 0), s))
      else if pod_Phase pod = ''Succeeded'' then
        (if Phase st \<noteq> TunnelPhaseTerminated
         then ((with_status (\<lambda>st. st\<lparr>Phase := TunnelPhaseTerminated, Message := ''Gateway terminated''\<rparr>) tunnel,
                True, 0), s)
         else ((tunnel, False, 0), s))
      else if isPodReady pod then handleReadyPod r tunnel pod s
      else
        (if Phase st \<noteq> TunnelPhaseProvisioning \<or> Message st \<noteq> ''Gateway pod starting''
         then ((with_status (\<lambda>st. st\<lparr>Phase := TunnelPhaseProvisioning, Message := ''Gateway pod starting''\<rparr>) tunnel,
                True, 0), s)
         else ((tunnel, False, 0), s)))"

section \<open>Deletion\<close>

definition releaseForwarderPort :: "Tunnel \<Rightarrow> 'w operator \<Rightarrow> 'w operator" where
  "releaseForwarderPort tunnel s =
     (case op_PortAllocator s of
        None \<Rightarrow> s
      | Some al \<Rightarrow> s\<lparr>op_PortAllocator := Some (Release (tunnel_key tunnel) al),
                     portAllocationsActive := portAllocationsActive s - 1\<rparr>)"

definition deleteGatewayResources ::
  "'w TunnelReconciler \<Rightarrow> Tunnel \<Rightarrow> 'w \<Rightarrow> reconcile_error option \<times> 'w" where
  "deleteGatewayResources r tunnel w =
     (let key = \<lparr>ok_Namespace = t_Namespace tunnel, ok_Name = gatewayResourceName (t_Name tunnel)\<rparr>;
          fatal = (\<lambda>e. case e of None \<Rightarrow> False | Some e \<Rightarrow> \<not> IsNotFound e)
      in case kDeletePod (Client r) key w of
          (e, w1) \<Rightarrow>
            if fatal e then (map_option DeletingPod e, w1)
            else case kDeleteNetworkPolicy (Client r) key w1 of
                (e, w2) \<Rightarrow> if fatal e then (map_option DeletingNetworkPolicy e, w2) else (None, w2))"

definition handleDeletion ::
  "'w TunnelReconciler \<Rightarrow> Tunnel \<Rightarrow> 'w operator \<Rightarrow> reconcile_error option \<times> 'w operator" where
  "handleDeletion r tunnel s =
     (if \<not> kContainsFinalizer (Client r) tunnel finalizerName
      then (None, releaseForwarderPort tunnel s)
      else case deleteGatewayResources r tunnel (op_World s) of
          (Some e, w1) \<Rightarrow> (Some e, set_world w1 s)
        | (None, w1) \<Rightarrow>
            (case kUpdateTunnel (Client r) (kRemoveFinalizer (Client r) tunnel finalizerName) w1 of
               (Inl e, w2) \<Rightarrow> (Some (RemovingFinalizer e), set_world w2 s)
             | (Inr tunnel1, w2) \<Rightarrow>
                 (None, notifyTunnelUpdate tunnel1 DELETED
                          (releaseForwarderPort tunnel1 (set_world w2 s)))))"

text \<open>The end of \<open>handleTerminated\<close>, once the finalizer is gone.\<close>

definition finishTerminated ::
  "'w TunnelReconciler \<Rightarrow> Tunnel \<Rightarrow> 'w operator \<Rightarrow> reconcile_error option \<times> 'w operator" where
  "finishTerminated r tunnel s =
     (let s1 = notifyTunnelUpdate tunnel DELETED (releaseForwarderPort tunnel s)
      in case kDeleteTunnel (Client r) tunnel (op_World s1) of
          (None, w) \<Rightarrow> (None, set_world w s1)
        | (Some e, w) \<Rightarrow> (if IsNotFound e then None else Some (ClientError e), set_world w s1))"

definition handleTerminated ::
  "'w TunnelReconciler \<Rightarrow> Tunnel \<Rightarrow> 'w operator \<Rightarrow> reconcile_error option \<times> 'w operator" where
  "handleTerminated r tunnel s =
     (case deleteGatewayResources r tunnel (op_World s) of
        (Some e, w1) \<Rightarrow> (Some e, set_world w1 s)
      | (None, w1) \<Rightarrow>
          if kContainsFinalizer (Client r) tunnel finalizerName then
            (case kUpdateTunnel (Client r) (kRemoveFinalizer (Client r) tunnel finalizerName) w1 of
               (Inl e, w2) \<Rightarrow> (Some (RemovingFinalizer e), set_world w2 s)
             | (Inr tunnel1, w2) \<Rightarrow> finishTerminated r tunnel1 (set_world w2 s))
          else finishTerminated r tunnel (set_world w1 s))"

section \<open>Reconcile\<close>

text \<open>
  The middle of \<open>Reconcile\<close>: the recorded port and gateway pod are brought up to date. The
  flag is \<open>mappingChanged\<close>, which at this point equals \<open>updated\<close>.
\<close>

definition reconcileMapping ::
  "int \<Rightarrow> Tunnel \<Rightarrow> Pod \<Rightarrow> string \<Rightarrow> 'w operator \<Rightarrow>
   (reconcile_error + Tunnel \<times> bool \<times> UpdateType) \<times> 'w operator" where
  "reconcileMapping draw tunnel pod resourceName s =
     (let observe = (\<lambda>tunnel changed updateType.
            let st = t_Status tunnel;
                c1 = (GatewayPodName st \<noteq> resourceName);
                st1 = (if c1 then st\<lparr>GatewayPodName := resourceName\<rparr> else st);
                c2 = (GatewayPodUID st1 \<noteq> pod_UID pod);
                st2 = (if c2 then st1\<lparr>GatewayPodUID := pod_UID pod, GatewayPublicKey := ''''\<rparr> else st1);
                c3 = (GatewayPodIP st2 \<noteq> pod_PodIP pod);
                st3 = (if c3 then st2\<lparr>GatewayPodIP := pod_PodIP pod\<rparr> else st2);
                mappingChanged = (changed \<or> c1 \<or> c2 \<or> c3);
                st4 = (if mappingChanged then st3\<lparr>MappingRevision := i64 (MappingRevision st3 + 1)\<rparr> else st3)
            in (tunnel\<lparr>t_Status := st4\<rparr>, mappingChanged, updateType))
      in case op_PortAllocator s of
          Some al \<Rightarrow>
            if ForwarderPort (t_Status tunnel) = 0 then
              (case Allocate draw (tunnel_key tunnel) al of
                 (Inl e, al1) \<Rightarrow> (Inl (AllocatingForwarderPort e), s\<lparr>op_PortAllocator := Some al1\<rparr>)
               | (Inr port, al1) \<Rightarrow>
                   (Inr (observe (with_status (\<lambda>st. st\<lparr>ForwarderPort := port\<rparr>) tunnel) True ADDED),
                    s\<lparr>op_PortAllocator := Some al1,
                      portAllocationsActive := portAllocationsActive s + 1\<rparr>))
            else (Inr (observe tunnel False MODIFIED), s)
        | None \<Rightarrow> (Inr (observe tunnel False MODIFIED), s))"

text \<open>The end of \<open>Reconcile\<close>: persist, then publish, then publish again while not ready.\<close>

definition republish :: "Tunnel \<Rightarrow> 'w operator \<Rightarrow> 'w operator" where
  "republish tunnel s =
     (let st = t_Status tunnel in
      if op_ForwarderServer s \<noteq> None \<and> GatewayPodIP st \<noteq> '''' \<and> GatewayPublicKey st \<noteq> '''' \<and>
         Phase st \<noteq> TunnelPhaseReady \<and> MappingRevision st > 0
      then notifyTunnelUpdate tunnel MODIFIED s else s)"

definition persistAndPublish ::
  "'w TunnelReconciler \<Rightarrow> Tunnel \<Rightarrow> Tunnel \<Rightarrow> bool \<Rightarrow> bool \<Rightarrow> UpdateType \<Rightarrow> 'w operator \<Rightarrow>
   reconcile_error option \<times> 'w operator" where
  "persistAndPublish r statusBase tunnel updated mappingChanged updateType s =
     (if updated then
        (case kPatchStatus (Client r) statusBase tunnel (op_World s) of
           (Inl e, w1) \<Rightarrow> (Some (UpdatingTunnelStatus e), set_world w1 s)
         | (Inr tunnel1, w1) \<Rightarrow>
             (let k = (Phase (t_Status tunnel1), t_Namespace tunnel1);
                  s1 = (set_world w1 s)\<lparr>tunnelsActive := (tunnelsActive s)(k := tunnelsActive s k + 1)\<rparr>;
                  s2 = (if mappingChanged then notifyTunnelUpdate tunnel1 updateType s1 else s1)
              in (None, republish tunnel1 s2)))
      else (None, republish tunnel s))"

text \<open>\<open>Reconcile\<close> from the finalizer on, for a live tunnel with a valid target.\<close>

definition reconcileLive ::
  "'w TunnelReconciler \<Rightarrow> int \<Rightarrow> Tunnel \<Rightarrow> 'w operator \<Rightarrow> (reconcile_error + int) \<times> 'w operator" where
  "reconcileLive r draw tunnel s =
     (let resourceName = gatewayResourceName (t_Name tunnel); labels = gatewayLabels (t_Name tunnel)
      in case ensureGatewayPod r tunnel resourceName labels (op_World s) of
          (Inl e, w1) \<Rightarrow> (Inl e, set_world w1 s)
        | (Inr pod, w1) \<Rightarrow>
            (case ensureNetworkPolicy r tunnel resourceName labels w1 of
               (Some e, w2) \<Rightarrow> (Inl e, set_world w2 s)
             | (None, w2) \<Rightarrow>
                 (case reconcileMapping draw tunnel pod resourceName (set_world w2 s) of
                    (Inl e, s1) \<Rightarrow> (Inl e, s1)
                  | (Inr (tunnel1, mappingChanged, updateType), s1) \<Rightarrow>
                      (case evaluatePodPhase r tunnel1 pod s1 of
                         ((tunnel2, phaseUpdated, requeueAfter), s2) \<Rightarrow>
                           (case persistAndPublish r tunnel tunnel2 (mappingChanged \<or> phaseUpdated)
                                   mappingChanged updateType s2 of
                              (Some e, s3) \<Rightarrow> (Inl e, s3)
                            | (None, s3) \<Rightarrow> (Inr requeueAfter, s3))))))"

definition reconcileTunnel ::
  "'w TunnelReconciler \<Rightarrow> int \<Rightarrow> ObjectKey \<Rightarrow> 'w operator \<Rightarrow> (reconcile_error + int) \<times> 'w operator" where
  "reconcileTunnel r draw req s =
     (let done = (\<lambda>(e, s). (case e of None \<Rightarrow> Inr 0 | Some e \<Rightarrow> Inl e, s))
      in case kGetTunnel (Client r) req (op_World s) of
          (Inl e, w1) \<Rightarrow> (if IsNotFound e then Inr 0 else Inl (ClientError e), set_world w1 s)
        | (Inr tunnel, w1) \<Rightarrow>
            if \<not> IsZero (t_DeletionTimestamp tunnel) then done (handleDeletion r tunnel (set_world w1 s))
            else if Phase (t_Status tunnel) = TunnelPhaseTerminated
            then done (handleTerminated r tunnel (set_world w1 s))
            else case validateTunnelTarget (ts_Target (t_Spec tunnel)) of
                Some e \<Rightarrow> (Inl (ValidatingTarget e), set_world w1 s)
              | None \<Rightarrow>
                  if kContainsFinalizer (Client r) tunnel finalizerName
                  then reconcileLive r draw tunnel (set_world w1 s)
                  else
                    (case kUpdateTunnel (Client r) (kAddFinalizer (Client r) tunnel finalizerName) w1 of
                       (Inl e, w2) \<Rightarrow> (Inl (ClientError e), set_world w2 s)
                     | (Inr tunnel1, w2) \<Rightarrow> reconcileLive r draw tunnel1 (set_world w2 s)))"

definition Reconcile ::
  "'w TunnelReconciler \<Rightarrow> int \<Rightarrow> ObjectKey \<Rightarrow> 'w operator \<Rightarrow> (reconcile_error + int) \<times> 'w operator" where
  "Reconcile r draw req s =
     (case reconcileTunnel r draw req s of
        (res, s1) \<Rightarrow>
          let label = (case res of Inl _ \<Rightarrow> ''error'' | Inr _ \<Rightarrow> ''success'')
          in (res, s1\<lparr>reconciliationsTotal :=
                (reconciliationsTotal s1)(label := reconciliationsTotal s1 label + 1)\<rparr>))"

section \<open>The mapping and its revision\<close>

text \<open>The status fields a mapping revision stands for.\<close>

definition mapping_of :: "TunnelStatus \<Rightarrow> int \<times> string \<times> string \<times> string" where
  "mapping_of st = (ForwarderPort st, GatewayPodName st, GatewayPodUID st, GatewayPodIP st)"

definition mapped_status :: "bool \<Rightarrow> int \<Rightarrow> string \<Rightarrow> Pod \<Rightarrow> TunnelStatus \<Rightarrow> TunnelStatus" where
  "mapped_status changed port resourceName pod st =
     st\<lparr>ForwarderPort := port, GatewayPodName := resourceName, GatewayPodUID := pod_UID pod,
        GatewayPublicKey := (if GatewayPodUID st = pod_UID pod then GatewayPublicKey st else ''''),
        GatewayPodIP := pod_PodIP pod,
        MappingRevision := (if changed then i64 (MappingRevision st + 1) else MappingRevision st)\<rparr>"

lemma reconcileMapping_Inr:
  assumes "reconcileMapping draw t pod rn s = (Inr (t', c, ty), s')"
  obtains port where "t' = t\<lparr>t_Status := mapped_status c port rn pod (t_Status t)\<rparr>"
    and "\<not> c \<Longrightarrow> mapping_of (t_Status t) = (port, rn, pod_UID pod, pod_PodIP pod)"
    and "ty = ADDED \<and> c \<and> ForwarderPort (t_Status t) = 0 \<and>
         (\<exists>al al1. op_PortAllocator s = Some al \<and> Allocate draw (tunnel_key t) al = (Inr port, al1) \<and>
                   s' = s\<lparr>op_PortAllocator := Some al1, portAllocationsActive := portAllocationsActive s + 1\<rparr>)
       \<or> ty = MODIFIED \<and> port = ForwarderPort (t_Status t) \<and> s' = s \<and>
         (ForwarderPort (t_Status t) \<noteq> 0 \<or> op_PortAllocator s = None)"
  using assms
  by (cases "t_Status t")
     (auto simp: reconcileMapping_def Let_def mapped_status_def mapping_of_def
        split: option.splits if_splits prod.splits sum.splits)

section \<open>What an evaluation of the phase depends on\<close>

text \<open>The forwarders the readiness of a tunnel still waits for; none without a server.\<close>

definition waits_for :: "Tunnel \<Rightarrow> 'w operator \<Rightarrow> string list" where
  "waits_for t s =
     (case op_ForwarderServer s of
        None \<Rightarrow> []
      | Some srv \<Rightarrow> MissingAcks (t_Namespace t) (t_Name t) (MappingRevision (t_Status t)) srv)"

text \<open>The key the gateway answered, when it was asked and answered one.\<close>

definition fetched_key :: "'w TunnelReconciler \<Rightarrow> Pod \<Rightarrow> 'w \<Rightarrow> string option" where
  "fetched_key r pod w =
     (if pod_PodIP pod = '''' then None
      else case fst (fetcher r (pod_PodIP pod) w) of
          Inl _ \<Rightarrow> None
        | Inr key \<Rightarrow> if key = '''' then None else Some key)"

text \<open>The delay \<^const>\<open>handleReadyPod\<close> has chosen when it comes to the endpoint without a key.\<close>

definition no_key_requeue :: "'w TunnelReconciler \<Rightarrow> Pod \<Rightarrow> 'w \<Rightarrow> int" where
  "no_key_requeue r pod w =
     (if pod_PodIP pod \<noteq> '''' \<and> isl (fst (fetcher r (pod_PodIP pod) w)) then 2 * second else 0)"

section \<open>What an evaluation of the phase keeps\<close>

text \<open>The fields that only \<^const>\<open>reconcileMapping\<close> writes.\<close>

definition same_mapping :: "Tunnel \<Rightarrow> Tunnel \<Rightarrow> bool" where
  "same_mapping t t' \<longleftrightarrow>
     t_Name t' = t_Name t \<and> t_Namespace t' = t_Namespace t \<and> t_Spec t' = t_Spec t \<and>
     t_Finalizers t' = t_Finalizers t \<and> t_DeletionTimestamp t' = t_DeletionTimestamp t \<and>
     mapping_of (t_Status t') = mapping_of (t_Status t) \<and>
     MappingRevision (t_Status t') = MappingRevision (t_Status t)"

lemma updateEndpoint_frame:
  assumes "updateEndpoint r t u q s = ((t', u', q'), s')"
  shows "same_mapping t t'" and "Phase (t_Status t') = Phase (t_Status t)"
    and "GatewayPublicKey (t_Status t') = GatewayPublicKey (t_Status t)"
    and "\<exists>w. s' = set_world w s" and "u \<Longrightarrow> u'" and "\<not> u' \<Longrightarrow> t' = t"
  using assms
  by (auto simp: updateEndpoint_def Let_def same_mapping_def mapping_of_def
      split: if_splits option.splits prod.splits)

lemma same_phase_update:
  "Phase st = p \<Longrightarrow> Message st = m \<Longrightarrow>
   st\<lparr>GatewayPublicKey := k, Phase := p, Message := m\<rparr> = st\<lparr>GatewayPublicKey := k\<rparr>"
  by (cases st) simp

text \<open>
  \<^const>\<open>handleReadyPod\<close> either stops to wait for acknowledgements or goes on to the endpoint,
  from a tunnel that differs in key, phase and message at most.
\<close>

lemma handleReadyPod_cases:
  obtains (waiting) key w u where "fetched_key r pod (op_World s) = Some key" "waits_for t s \<noteq> []"
      "handleReadyPod r t pod s =
         ((with_status (\<lambda>st. st\<lparr>GatewayPublicKey := key, Phase := TunnelPhaseProvisioning,
             Message := ''Waiting for forwarder mapping acknowledgement''\<rparr>) t, u, forwarderAckRequeue),
          set_world w s)"
      "u \<longleftrightarrow> (GatewayPublicKey (t_Status t), Phase (t_Status t), Message (t_Status t)) \<noteq>
         (key, TunnelPhaseProvisioning, ''Waiting for forwarder mapping acknowledgement'')"
  | (ready) key w u where "fetched_key r pod (op_World s) = Some key" "waits_for t s = []"
      "handleReadyPod r t pod s =
         updateEndpoint r (with_status (\<lambda>st. st\<lparr>GatewayPublicKey := key, Phase := TunnelPhaseReady,
             Message := ''Gateway ready''\<rparr>) t) u 0 (set_world w s)"
      "u \<longleftrightarrow> (GatewayPublicKey (t_Status t), Phase (t_Status t), Message (t_Status t)) \<noteq>
         (key, TunnelPhaseReady, ''Gateway ready'')"
  | (no_key) w where "fetched_key r pod (op_World s) = None"
      "handleReadyPod r t pod s =
         updateEndpoint r t False (no_key_requeue r pod (op_World s)) (set_world w s)"
proof (cases "fetched_key r pod (op_World s)")
  case None
  have world: "s = set_world (op_World s) s" by simp
  show ?thesis
  proof (cases "pod_PodIP pod = ''''")
    case True
    with None world show ?thesis
      by (intro no_key [of "op_World s"]) (simp_all add: handleReadyPod_def no_key_requeue_def)
  next
    case False
    then show ?thesis
      using None
      by (cases "fetcher r (pod_PodIP pod) (op_World s)"; cases "fst (fetcher r (pod_PodIP pod) (op_World s))")
         (auto simp: handleReadyPod_def fetched_key_def no_key_requeue_def split: if_splits intro: no_key)
  qed
next
  case (Some key)
  then obtain w where f: "fetcher r (pod_PodIP pod) (op_World s) = (Inr key, w)" "key \<noteq> ''''"
      "pod_PodIP pod \<noteq> ''''"
    by (cases "fetcher r (pod_PodIP pod) (op_World s)")
       (auto simp: fetched_key_def split: if_splits sum.splits)
  have w: "waits_for t s = (case op_ForwarderServer s of None \<Rightarrow> [] | Some srv \<Rightarrow>
      MissingAcks (t_Namespace t) (t_Name t) (MappingRevision (t_Status t)) srv)"
    by (simp add: waits_for_def)
  show ?thesis
  proof (cases "waits_for t s = []")
    case True
    have "handleReadyPod r t pod s =
         updateEndpoint r (with_status (\<lambda>st. st\<lparr>GatewayPublicKey := key, Phase := TunnelPhaseReady,
             Message := ''Gateway ready''\<rparr>) t)
           ((GatewayPublicKey (t_Status t), Phase (t_Status t), Message (t_Status t)) \<noteq>
            (key, TunnelPhaseReady, ''Gateway ready'')) 0 (set_world w s)"
      using f True unfolding w by (auto simp: handleReadyPod_def Let_def same_phase_update)
    then show ?thesis using Some True by (intro ready) simp_all
  next
    case False
    have "handleReadyPod r t pod s =
         ((with_status (\<lambda>st. st\<lparr>GatewayPublicKey := key, Phase := TunnelPhaseProvisioning,
             Message := ''Waiting for forwarder mapping acknowledgement''\<rparr>) t,
           (GatewayPublicKey (t_Status t), Phase (t_Status t), Message (t_Status t)) \<noteq>
            (key, TunnelPhaseProvisioning, ''Waiting for forwarder mapping acknowledgement''),
           forwarderAckRequeue), set_world w s)"
      using f False unfolding w by (auto simp: handleReadyPod_def Let_def same_phase_update)
    then show ?thesis using Some False by (intro waiting) simp_all
  qed
qed

lemma handleReadyPod_frame:
  assumes "handleReadyPod r t pod s = ((t', u, q), s')"
  shows "same_mapping t t'" and "\<exists>w. s' = set_world w s" and "\<not> u \<Longrightarrow> t' = t"
proof -
  let ?upd = "\<lambda>k p m. with_status (\<lambda>st. st\<lparr>GatewayPublicKey := k, Phase := p, Message := m\<rparr>) t"
  have upd: "same_mapping t (?upd k p m)" for k p m by (simp add: same_mapping_def mapping_of_def)
  have same: "?upd k p m = t"
    if "(GatewayPublicKey (t_Status t), Phase (t_Status t), Message (t_Status t)) = (k, p, m)" for k p m
    using that by (auto simp: same_phase_update)
  have trans: "same_mapping t t'" if "same_mapping t t1" "same_mapping t1 t'" for t1
    using that by (simp add: same_mapping_def)
  have "same_mapping t t' \<and> (\<exists>w. s' = set_world w s) \<and> (\<not> u \<longrightarrow> t' = t)"
  proof (cases rule: handleReadyPod_cases [of r pod s t])
    case (waiting key w u')
    from waiting(3) assms have eq: "t' = ?upd key TunnelPhaseProvisioning
        ''Waiting for forwarder mapping acknowledgement''" "u = u'" "s' = set_world w s"
      by simp_all
    then show ?thesis using upd same waiting(4) by blast
  next
    case (ready key w u')
    let ?t1 = "?upd key TunnelPhaseReady ''Gateway ready''"
    have e: "updateEndpoint r ?t1 u' 0 (set_world w s) = ((t', u, q), s')"
      using ready(3) assms by simp
    have "t' = t" if "\<not> u"
      using updateEndpoint_frame(5,6) [OF e] that same ready(4) by metis
    moreover have "\<exists>w. s' = set_world w s" using updateEndpoint_frame(4) [OF e] by auto
    ultimately show ?thesis using trans [OF upd updateEndpoint_frame(1) [OF e]] by blast
  next
    case (no_key w)
    have e: "updateEndpoint r t False (no_key_requeue r pod (op_World s)) (set_world w s) = ((t', u, q), s')"
      using no_key(2) assms by simp
    have "\<exists>w. s' = set_world w s" using updateEndpoint_frame(4) [OF e] by auto
    then show ?thesis using updateEndpoint_frame(1,6) [OF e] by blast
  qed
  then show "same_mapping t t'" and "\<exists>w. s' = set_world w s" and "\<not> u \<Longrightarrow> t' = t" by auto
qed

lemma evaluatePodPhase_frame:
  assumes "evaluatePodPhase r t pod s = ((t', u, q), s')"
  shows "same_mapping t t'" and "\<exists>w. s' = set_world w s" and "\<not> u \<Longrightarrow> t' = t"
proof -
  have refl: "\<exists>w. s = set_world w s" by (rule exI [of _ "op_World s"]) simp
  have "same_mapping t t' \<and> (\<exists>w. s' = set_world w s) \<and> (\<not> u \<longrightarrow> t' = t)"
  proof (cases "pod_Phase pod \<noteq> ''Failed'' \<and> pod_Phase pod \<noteq> ''Succeeded'' \<and> isPodReady pod")
    case True
    then show ?thesis
      using assms handleReadyPod_frame [of r t pod s t' u q s'] by (simp add: evaluatePodPhase_def)
  next
    case False
    then show ?thesis
      using assms refl
      by (auto simp: evaluatePodPhase_def same_mapping_def mapping_of_def Let_def split: if_splits)
  qed
  then show "same_mapping t t'" and "\<exists>w. s' = set_world w s" and "\<not> u \<Longrightarrow> t' = t" by auto
qed

section \<open>Readiness\<close>

lemma handleReadyPod_phase:
  assumes "handleReadyPod r t pod s = ((t', u, q), s')"
  shows "(Phase (t_Status t'), GatewayPublicKey (t_Status t')) =
     (case fetched_key r pod (op_World s) of
        None \<Rightarrow> (Phase (t_Status t), GatewayPublicKey (t_Status t))
      | Some key \<Rightarrow>
          (if waits_for t s = [] then TunnelPhaseReady else TunnelPhaseProvisioning, key))"
proof (cases rule: handleReadyPod_cases [of r pod s t])
  case (waiting key w u')
  then show ?thesis using assms by auto
next
  case (ready key w u')
  then show ?thesis
    using assms updateEndpoint_frame(2,3) [of r _ u' 0 "set_world w s" t' u q s'] by auto
next
  case (no_key w)
  then show ?thesis
    using assms updateEndpoint_frame(2,3) [of r t False _ "set_world w s" t' u q s'] by auto
qed

section \<open>The documented behaviour of the API server\<close>

abbreviation object_key :: "Tunnel \<Rightarrow> ObjectKey" where
  "object_key t \<equiv> \<lparr>ok_Namespace = t_Namespace t, ok_Name = t_Name t\<rparr>"

definition stored :: "'w TunnelReconciler \<Rightarrow> ObjectKey \<Rightarrow> 'w \<Rightarrow> api_error + Tunnel" where
  "stored r k w = fst (kGetTunnel (Client r) k w)"

text \<open>
  What the reconciler relies on: a lookup by key returns that object; calls about other kinds
  and the gateway's status leave tunnels alone; an accepted update of a tunnel that is not
  being deleted is what is stored, with the stored status (\<open>status\<close> is a subresource); an
  accepted status patch is what is stored, and it has the requested status when the stored
  object is the base of the patch.
\<close>

definition tunnel_store :: "'w TunnelReconciler \<Rightarrow> bool" where
  "tunnel_store r \<longleftrightarrow>
     (\<forall>k w t. stored r k w = Inr t \<longrightarrow> object_key t = k) \<and>
     (\<forall>k k' w. stored r k (snd (kGetTunnel (Client r) k' w)) = stored r k w) \<and>
     (\<forall>k k' w. stored r k (snd (kGetPod (Client r) k' w)) = stored r k w) \<and>
     (\<forall>k p w. stored r k (snd (kCreatePod (Client r) p w)) = stored r k w) \<and>
     (\<forall>k k' f w. stored r k (snd (kCreateOrUpdateNetworkPolicy (Client r) k' f w)) = stored r k w) \<and>
     (\<forall>k k' w. stored r k (snd (kGetService (Client r) k' w)) = stored r k w) \<and>
     (\<forall>k ip w. stored r k (snd (fetcher r ip w)) = stored r k w) \<and>
     (\<forall>t f. object_key (kAddFinalizer (Client r) t f) = object_key t \<and>
            t_DeletionTimestamp (kAddFinalizer (Client r) t f) = t_DeletionTimestamp t \<and>
            object_key (kRemoveFinalizer (Client r) t f) = object_key t) \<and>
     (\<forall>t w t' w'. kUpdateTunnel (Client r) t w = (Inr t', w') \<longrightarrow> object_key t' = object_key t) \<and>
     (\<forall>t w t' w'. kUpdateTunnel (Client r) t w = (Inr t', w') \<and> IsZero (t_DeletionTimestamp t) \<longrightarrow>
        stored r (object_key t) w' = Inr t' \<and>
        (\<exists>old. stored r (object_key t) w = Inr old \<and> t_Status t' = t_Status old)) \<and>
     (\<forall>base t w t' w'. kPatchStatus (Client r) base t w = (Inr t', w') \<longrightarrow>
        stored r (object_key t) w' = Inr t' \<and>
        (stored r (object_key t) w = Inr base \<longrightarrow> t_Status t' = t_Status t))"

lemma tunnel_storeD:
  assumes "tunnel_store r"
  shows "stored r k w = Inr t \<Longrightarrow> object_key t = k"
    and "stored r k (snd (kGetTunnel (Client r) k' w)) = stored r k w"
    and "stored r k (snd (kGetPod (Client r) k' w)) = stored r k w"
    and "stored r k (snd (kCreatePod (Client r) p w)) = stored r k w"
    and "stored r k (snd (kCreateOrUpdateNetworkPolicy (Client r) k' f w)) = stored r k w"
    and "stored r k (snd (kGetService (Client r) k' w)) = stored r k w"
    and "stored r k (snd (fetcher r ip w)) = stored r k w"
    and "object_key (kAddFinalizer (Client r) t g) = object_key t"
    and "t_DeletionTimestamp (kAddFinalizer (Client r) t g) = t_DeletionTimestamp t"
    and "kUpdateTunnel (Client r) t w = (Inr t', w') \<Longrightarrow> IsZero (t_DeletionTimestamp t) \<Longrightarrow>
      stored r (object_key t) w' = Inr t' \<and>
      (\<exists>old. stored r (object_key t) w = Inr old \<and> t_Status t' = t_Status old)"
    and "kPatchStatus (Client r) base t w = (Inr t', w') \<Longrightarrow> stored r (object_key t) w' = Inr t'"
    and "kPatchStatus (Client r) base t w = (Inr t', w') \<Longrightarrow> stored r (object_key t) w = Inr base \<Longrightarrow>
      t_Status t' = t_Status t"
    and "object_key (kRemoveFinalizer (Client r) t g) = object_key t"
  using assms by (auto simp: tunnel_store_def)

lemma tunnel_store_update:
  "tunnel_store r \<Longrightarrow> kUpdateTunnel (Client r) t w = (Inr t', w') \<Longrightarrow> object_key t' = object_key t"
  unfolding tunnel_store_def by blast

lemma stored_after:
  assumes "tunnel_store r"
  shows "kGetTunnel (Client r) k' w = (x1, w') \<Longrightarrow> stored r k w' = stored r k w"
    and "kGetPod (Client r) k' w = (x2, w') \<Longrightarrow> stored r k w' = stored r k w"
    and "kCreatePod (Client r) p w = (x3, w') \<Longrightarrow> stored r k w' = stored r k w"
    and "kCreateOrUpdateNetworkPolicy (Client r) k' f w = (x4, w') \<Longrightarrow> stored r k w' = stored r k w"
    and "kGetService (Client r) k' w = (x5, w') \<Longrightarrow> stored r k w' = stored r k w"
    and "fetcher r ip w = (x6, w') \<Longrightarrow> stored r k w' = stored r k w"
  using tunnel_storeD(2-7) [OF assms] by (metis snd_conv)+

lemma ensure_stored:
  assumes "tunnel_store r"
  shows "ensureGatewayPod r t rn l w = (x, w') \<Longrightarrow> stored r k w' = stored r k w"
    and "ensureNetworkPolicy r t rn l w = (y, w') \<Longrightarrow> stored r k w' = stored r k w"
    and "resolveForwarderVIP r w = (z, w') \<Longrightarrow> stored r k w' = stored r k w"
proof -
  note st = stored_after [OF assms, where k = k]
  show "ensureGatewayPod r t rn l w = (x, w') \<Longrightarrow> stored r k w' = stored r k w"
    by (auto simp: ensureGatewayPod_def Let_def st(2,3) split: prod.splits sum.splits if_splits)
  show "ensureNetworkPolicy r t rn l w = (y, w') \<Longrightarrow> stored r k w' = stored r k w"
    by (auto simp: ensureNetworkPolicy_def st(4) split: prod.splits option.splits)
  show "resolveForwarderVIP r w = (z, w') \<Longrightarrow> stored r k w' = stored r k w"
    by (auto simp: resolveForwarderVIP_def Let_def st(5) split: prod.splits sum.splits if_splits)
qed

lemma updateEndpoint_stored:
  assumes "tunnel_store r" "updateEndpoint r t u q s = (x, s')"
  shows "stored r k (op_World s') = stored r k (op_World s)"
proof (cases "resolveForwarderVIP r (op_World s)")
  case (Pair vip w)
  with ensure_stored(3) [OF assms(1) this, of k] assms(2) show ?thesis
    by (auto simp: updateEndpoint_def Let_def split: option.splits if_splits)
qed

lemma handleReadyPod_stored:
  assumes "tunnel_store r" "handleReadyPod r t pod s = (x, s')"
  shows "stored r k (op_World s') = stored r k (op_World s)"
proof (cases "fetcher r (pod_PodIP pod) (op_World s)")
  case (Pair y w)
  have e: "stored r k (op_World s1') = stored r k (op_World s1)"
    if "updateEndpoint r t u q s1 = (z, s1')" for t u q s1 z s1'
    using assms(1) that by (rule updateEndpoint_stored)
  show ?thesis
    using assms(2) stored_after(6) [OF assms(1) Pair, of k] Pair
    by (auto simp: handleReadyPod_def Let_def split: sum.splits if_splits dest!: e)
qed

lemma evaluatePodPhase_stored:
  assumes "tunnel_store r" "evaluatePodPhase r t pod s = (x, s')"
  shows "stored r k (op_World s') = stored r k (op_World s)"
  using assms(2) handleReadyPod_stored [OF assms(1)]
  by (auto simp: evaluatePodPhase_def Let_def split: if_splits)

section \<open>Publishing\<close>

text \<open>Notifications about one tunnel, in order.\<close>

definition publish :: "UpdateType list \<Rightarrow> Tunnel \<Rightarrow> ForwarderServer \<Rightarrow> ForwarderServer" where
  "publish tys t srv = fold (\<lambda>ty. NotifyUpdate (Some (update_for ty t))) tys srv"

text \<open>When \<^const>\<open>notifyTunnelUpdate\<close> has something to say.\<close>

definition notifies :: "Tunnel \<Rightarrow> UpdateType \<Rightarrow> bool" where
  "notifies t ty \<longleftrightarrow> 0 < ForwarderPort (t_Status t) \<and>
     (ty = DELETED \<or> GatewayPodIP (t_Status t) \<noteq> '''' \<and> GatewayPublicKey (t_Status t) \<noteq> '''')"

lemma notify_server [simp]:
  "op_ForwarderServer (notifyTunnelUpdate t ty s) =
     map_option (publish (if notifies t ty then [ty] else []) t) (op_ForwarderServer s)"
  by (auto simp: notifyTunnelUpdate_def Let_def publish_def notifies_def split: option.splits)

lemma notify_frame [simp]:
  "op_World (notifyTunnelUpdate t ty s) = op_World s"
  "op_PortAllocator (notifyTunnelUpdate t ty s) = op_PortAllocator s"
  "portAllocationsActive (notifyTunnelUpdate t ty s) = portAllocationsActive s"
  by (auto simp: notifyTunnelUpdate_def Let_def split: option.splits)

lemma publish_simps [simp]:
  "publish [] t srv = srv" "publish b t (publish a t srv) = publish (a @ b) t srv"
  "connectedLocked (publish tys t srv) = connectedLocked srv" "acked (publish tys t srv) = acked srv"
  by (simp_all add: publish_def)
     (induction tys arbitrary: srv, simp_all add: server.notify_acked)+

text \<open>Lines 150 to 170 of the source for a persisted tunnel \<open>t\<close>.\<close>

definition publications :: "bool \<Rightarrow> UpdateType \<Rightarrow> Tunnel \<Rightarrow> UpdateType list" where
  "publications mappingChanged updateType t =
     (if mappingChanged \<and> notifies t updateType then [updateType] else []) @
     (if notifies t MODIFIED \<and> Phase (t_Status t) \<noteq> TunnelPhaseReady \<and> 0 < MappingRevision (t_Status t)
      then [MODIFIED] else [])"

lemma republish_simps [simp]:
  "op_ForwarderServer (republish t s) = map_option (publish
      (if notifies t MODIFIED \<and> Phase (t_Status t) \<noteq> TunnelPhaseReady \<and> 0 < MappingRevision (t_Status t)
       then [MODIFIED] else []) t) (op_ForwarderServer s)"
  "op_World (republish t s) = op_World s"
  "op_PortAllocator (republish t s) = op_PortAllocator s"
  by (auto simp: republish_def notifies_def map_option_case Let_def split: option.split)

lemma map_option_publish [simp]:
  "map_option (publish b t) (map_option (publish a t) x) = map_option (publish (a @ b) t) x"
  "map_option (publish [] t) x = x"
  by (cases x; simp)+

lemma persistAndPublish_cases:
  assumes "persistAndPublish r base t u c ty s = (e, s')" "c \<longrightarrow> u"
  obtains (failed) x w where "u" "e = Some (UpdatingTunnelStatus x)"
      "kPatchStatus (Client r) base t (op_World s) = (Inl x, w)" "s' = set_world w s"
  | (persisted) t1 where "e = None"
      "if u then kPatchStatus (Client r) base t (op_World s) = (Inr t1, op_World s')
       else t1 = t \<and> op_World s' = op_World s"
      "op_ForwarderServer s' = map_option (publish (publications c ty t1) t1) (op_ForwarderServer s)"
      "op_PortAllocator s' = op_PortAllocator s"
proof (cases u)
  case False
  then show ?thesis
    using assms by (intro persisted [of t]) (auto simp: persistAndPublish_def publications_def)
next
  case True
  obtain x w where xw: "kPatchStatus (Client r) base t (op_World s) = (x, w)" by force
  show ?thesis
  proof (cases x)
    case (Inl y)
    with True xw assms(1) show ?thesis by (intro failed) (auto simp: persistAndPublish_def)
  next
    case (Inr t1)
    with True xw assms(1) show ?thesis
      by (intro persisted [of t1]) (auto simp: persistAndPublish_def Let_def publications_def)
  qed
qed

section \<open>The live path as a whole\<close>

lemma mapped_status_same:
  "mapping_of st = (port, rn, pod_UID pod, pod_PodIP pod) \<Longrightarrow> mapped_status False port rn pod st = st"
  by (cases st) (simp add: mapped_status_def mapping_of_def)

lemma reconcileMapping_unchanged:
  assumes "reconcileMapping draw t pod rn s = (Inr (t', False, ty), s')"
  shows "t' = t"
  using assms by (rule reconcileMapping_Inr) (simp add: mapped_status_same)

lemma reconcileMapping_frame:
  assumes "reconcileMapping draw t pod rn s = (x, s')"
  shows "op_World s' = op_World s" "op_ForwarderServer s' = op_ForwarderServer s"
  using assms by (auto simp: reconcileMapping_def Let_def split: option.splits if_splits prod.splits sum.splits)

lemma reconcileLive_cases:
  assumes "reconcileLive r draw t s = (res, s')"
  obtains (early) e where "res = Inl e" "op_ForwarderServer s' = op_ForwarderServer s"
  | (through) pod w1 w2 t1 c ty s1 t2 u q s2 e where
      "ensureGatewayPod r t (gatewayResourceName (t_Name t)) (gatewayLabels (t_Name t)) (op_World s) = (Inr pod, w1)"
      "ensureNetworkPolicy r t (gatewayResourceName (t_Name t)) (gatewayLabels (t_Name t)) w1 = (None, w2)"
      "reconcileMapping draw t pod (gatewayResourceName (t_Name t)) (set_world w2 s) = (Inr (t1, c, ty), s1)"
      "evaluatePodPhase r t1 pod s1 = ((t2, u, q), s2)"
      "persistAndPublish r t t2 (c \<or> u) c ty s2 = (e, s')"
      "res = (case e of None \<Rightarrow> Inr q | Some x \<Rightarrow> Inl x)"
  using assms
  by (auto simp: reconcileLive_def Let_def split: prod.splits sum.splits option.splits
      dest: reconcileMapping_frame(2))

text \<open>The tunnel that a completed reconciliation has stored, and what it published.\<close>

lemma reconcileLive_stored:
  assumes "tunnel_store r" "stored r (object_key t) (op_World s) = Inr t"
    and "reconcileLive r draw t s = (Inr q, s')"
  obtains pod t1 c ty s0 s1 t2 u s2 t3 where
      "reconcileMapping draw t pod (gatewayResourceName (t_Name t)) s0 = (Inr (t1, c, ty), s1)"
      "evaluatePodPhase r t1 pod s1 = ((t2, u, q), s2)"
      "\<exists>w. s0 = set_world w s"
      "stored r (object_key t) (op_World s') = Inr t3" "t_Status t3 = t_Status t2"
      "op_ForwarderServer s' = map_option (publish (publications c ty t3) t3) (op_ForwarderServer s)"
      "op_PortAllocator s' = op_PortAllocator s1"
  using assms(3)
proof (cases rule: reconcileLive_cases)
  case (through pod w1 w2 t1 c ty s1 t2 u q' s2 e)
  note map = through(3) and ev = through(4)
  from through(6) have e: "e = None" "q' = q" by (auto split: option.splits)
  have st2: "stored r k (op_World s2) = stored r k (op_World s)" for k
    using ensure_stored(1) [OF assms(1) through(1), of k] ensure_stored(2) [OF assms(1) through(2), of k]
      reconcileMapping_frame(1) [OF map] evaluatePodPhase_stored [OF assms(1) ev, of k] by simp
  have srv: "op_ForwarderServer s2 = op_ForwarderServer s" "op_PortAllocator s2 = op_PortAllocator s1"
    using evaluatePodPhase_frame(2) [OF ev] reconcileMapping_frame(2) [OF map] by auto
  have t1: "object_key t1 = object_key t"
    using map by (rule reconcileMapping_Inr) simp
  have key: "object_key t2 = object_key t"
    using evaluatePodPhase_frame(1) [OF ev] t1 by (simp add: same_mapping_def)
  have unchanged: "t2 = t" if "\<not> (c \<or> u)"
    using that map evaluatePodPhase_frame(3) [OF ev]
      reconcileMapping_unchanged [of draw t pod _ "set_world w2 s" t1 ty s1] by auto
  have world: "\<exists>w. set_world w2 s = set_world w s" by blast
  have c: "c \<longrightarrow> c \<or> u" by simp
  from through(5) c show ?thesis
  proof (cases rule: persistAndPublish_cases)
    case (failed x w)
    with e show ?thesis by simp
  next
    case (persisted t3)
    have "stored r (object_key t) (op_World s') = Inr t3 \<and> t_Status t3 = t_Status t2"
    proof (cases "c \<or> u")
      case True
      with persisted(2) have p: "kPatchStatus (Client r) t t2 (op_World s2) = (Inr t3, op_World s')" by simp
      show ?thesis
        using tunnel_storeD(11,12) [OF assms(1) p] st2 assms(2) unfolding key by simp
    next
      case False
      with persisted(2) unchanged st2 assms(2) show ?thesis by simp
    qed
    then show ?thesis
      using that [OF map ev [unfolded e(2)] world] persisted(3,4) srv by auto
  qed
qed simp

lemma evaluatePodPhase_ready:
  assumes "evaluatePodPhase r t pod s = ((t', u, q), s')" "Phase (t_Status t') = TunnelPhaseReady"
    and "Phase (t_Status t) \<noteq> TunnelPhaseReady"
  shows "isPodReady pod \<and> fetched_key r pod (op_World s) = Some (GatewayPublicKey (t_Status t')) \<and>
         waits_for t s = []"
proof -
  have h: "handleReadyPod r t pod s = ((t', u, q), s')" and "isPodReady pod"
    using assms by (auto simp: evaluatePodPhase_def Let_def split: if_splits)
  with handleReadyPod_phase [OF h] assms(2,3) show ?thesis
    by (auto split: option.splits if_splits)
qed

lemma fetched_key_nonempty: "fetched_key r pod w = Some key \<Longrightarrow> key \<noteq> ''''"
  by (auto simp: fetched_key_def split: if_splits sum.splits)

text \<open>From \<^const>\<open>Reconcile\<close> of a live tunnel to \<^const>\<open>reconcileLive\<close>.\<close>

definition live :: "Tunnel \<Rightarrow> bool" where
  "live t \<longleftrightarrow> IsZero (t_DeletionTimestamp t) \<and> Phase (t_Status t) \<noteq> TunnelPhaseTerminated"

lemma Reconcile_live:
  assumes "tunnel_store r" "stored r req (op_World s) = Inr t0" "live t0" "Reconcile r draw req s = (res, s')"
  obtains (failed) e where "res = Inl e" "op_ForwarderServer s' = op_ForwarderServer s"
  | (live) t s0 s1 where "stored r req (op_World s0) = Inr t" "object_key t = req" "t_Status t = t_Status t0"
      "reconcileLive r draw t s0 = (res, s1)" "\<exists>w. s0 = set_world w s"
      "op_World s' = op_World s1" "op_ForwarderServer s' = op_ForwarderServer s1"
      "op_PortAllocator s' = op_PortAllocator s1"
proof -
  obtain w1 where get: "kGetTunnel (Client r) req (op_World s) = (Inr t0, w1)"
    using assms(2) by (cases "kGetTunnel (Client r) req (op_World s)") (simp add: stored_def)
  note store = tunnel_storeD [OF assms(1)]
  have w1: "stored r req w1 = Inr t0" using stored_after(1) [OF assms(1) get, of req] assms(2) by simp
  have key: "object_key t0 = req" using store(1) [OF assms(2)] .
  obtain s1 where s1: "reconcileTunnel r draw req s = (res, s1)"
      "op_World s' = op_World s1" "op_ForwarderServer s' = op_ForwarderServer s1"
      "op_PortAllocator s' = op_PortAllocator s1"
    using assms(4) by (auto simp: Reconcile_def Let_def split: prod.splits)
  show ?thesis
  proof (cases "validateTunnelTarget (ts_Target (t_Spec t0))")
    case (Some e)
    then show ?thesis
      using s1 get assms(3) by (intro failed) (auto simp: reconcileTunnel_def live_def)
  next
    case None
    note val = this
    show ?thesis
    proof (cases "kContainsFinalizer (Client r) t0 finalizerName")
      case True
      then have "reconcileLive r draw t0 (set_world w1 s) = (res, s1)"
        using s1(1) get val assms(3) by (simp add: reconcileTunnel_def live_def)
      then show ?thesis using s1 key w1 by (intro live [of "set_world w1 s" t0 s1]) auto
    next
      case False
      let ?t = "kAddFinalizer (Client r) t0 finalizerName"
      obtain x w2 where x: "kUpdateTunnel (Client r) ?t w1 = (x, w2)" by force
      show ?thesis
      proof (cases x)
        case (Inl e)
        then show ?thesis
          using False s1 get val assms(3) x by (intro failed) (auto simp: reconcileTunnel_def live_def)
      next
        case (Inr t1)
        have "reconcileLive r draw t1 (set_world w2 s) = (res, s1)"
          using False s1(1) get val assms(3) x Inr by (simp add: reconcileTunnel_def live_def)
        moreover have "stored r req w2 = Inr t1 \<and> t_Status t1 = t_Status t0"
          using store(10) [OF x [unfolded Inr]] assms(3) w1 key unfolding store(8,9)
          by (simp add: live_def)
        ultimately show ?thesis
          using s1 store(1) by (intro live [of "set_world w2 s" t1 s1]) auto
      qed
    qed
  qed
qed

section \<open>Every reconciliation\<close>

text \<open>
  Whatever it does, a reconciliation touches the configuration server by publishing updates of
  one tunnel only, and the allocator by its operations only.
\<close>

definition publishes_only :: "'w operator \<Rightarrow> 'w operator \<Rightarrow> bool" where
  "publishes_only s s' \<longleftrightarrow> (\<exists>tys t. op_ForwarderServer s' = map_option (publish tys t) (op_ForwarderServer s)) \<and>
     (\<forall>al. op_PortAllocator s = Some al \<longrightarrow> alloc_inv al \<longrightarrow>
        (\<exists>al'. op_PortAllocator s' = Some al' \<and> alloc_inv al' \<and> minPort al' = minPort al \<and> maxPort al' = maxPort al))"

lemma publishes_onlyI:
  assumes "op_ForwarderServer s' = map_option (publish tys t) (op_ForwarderServer s)"
    and "\<And>al. op_PortAllocator s = Some al \<Longrightarrow> alloc_inv al \<Longrightarrow>
        \<exists>al'. op_PortAllocator s' = Some al' \<and> alloc_inv al' \<and> minPort al' = minPort al \<and> maxPort al' = maxPort al"
  shows "publishes_only s s'"
  unfolding publishes_only_def using assms by blast

lemma publishes_only_refl:
  "op_ForwarderServer s' = op_ForwarderServer s \<Longrightarrow> op_PortAllocator s' = op_PortAllocator s \<Longrightarrow> publishes_only s s'"
  by (rule publishes_onlyI [of _ "[]"]) simp_all

lemma Release_bounds [simp]: "minPort (Release k a) = minPort a" "maxPort (Release k a) = maxPort a"
  by (auto simp: Release_def split: option.split)

lemma release_simps [simp]:
  "op_World (releaseForwarderPort t s) = op_World s"
  "op_ForwarderServer (releaseForwarderPort t s) = op_ForwarderServer s"
  "op_PortAllocator (releaseForwarderPort t s) =
     map_option (Release (tunnel_key t)) (op_PortAllocator s)"
  by (auto simp: releaseForwarderPort_def split: option.split)

lemma retired_publishes:
  assumes "op_ForwarderServer s' = map_option (publish tys t) (op_ForwarderServer s)"
    and "op_PortAllocator s' = map_option (Release k) (op_PortAllocator s)"
  shows "publishes_only s s'"
  using assms by (intro publishes_onlyI) (auto simp: allocator.inv_release)

lemma publishes_simps [simp]:
  "publishes_only s (set_world w s)"
  "publishes_only s (releaseForwarderPort t s)"
  "publishes_only s (notifyTunnelUpdate t ty (releaseForwarderPort t (set_world w s)))"
  "publishes_only (set_world w s) s' \<longleftrightarrow> publishes_only s s'"
  "publishes_only s (set_world w s') \<longleftrightarrow> publishes_only s s'"
proof -
  show "publishes_only s (set_world w s)" by (rule publishes_only_refl) simp_all
  show "publishes_only s (releaseForwarderPort t s)"
    by (rule retired_publishes [where tys = "[]"]) (simp_all)
  show "publishes_only s (notifyTunnelUpdate t ty (releaseForwarderPort t (set_world w s)))"
    by (rule retired_publishes) (simp_all)
qed (simp_all add: publishes_only_def)

lemma handleDeletion_publishes: "handleDeletion r t s = (e, s') \<Longrightarrow> publishes_only s s'"
  by (auto simp: handleDeletion_def split: if_splits prod.splits option.splits sum.splits)

lemma finishTerminated_publishes: "finishTerminated r t (set_world w s) = (e, s') \<Longrightarrow> publishes_only s s'"
  by (auto simp: finishTerminated_def Let_def split: prod.splits option.splits)

lemma handleTerminated_publishes: "handleTerminated r t s = (e, s') \<Longrightarrow> publishes_only s s'"
  by (auto simp: handleTerminated_def split: if_splits prod.splits option.splits sum.splits
      dest: finishTerminated_publishes)

lemma reconcileMapping_allocator:
  assumes "reconcileMapping draw t pod rn s = (x, s')" "op_PortAllocator s = Some al" "alloc_inv al"
  shows "\<exists>al'. op_PortAllocator s' = Some al' \<and> alloc_inv al' \<and> minPort al' = minPort al \<and> maxPort al' = maxPort al"
proof -
  obtain y al' where y: "Allocate draw (tunnel_key t) al = (y, al')" by force
  have "alloc_inv al' \<and> minPort al' = minPort al \<and> maxPort al' = maxPort al"
    using allocator.inv_alloc [OF assms(3), of draw "tunnel_key t"]
      allocator.bounds_alloc [of draw "tunnel_key t" al] y by simp
  moreover have "s' = s \<or> op_PortAllocator s' = Some al'"
    using assms(1,2) y by (auto simp: reconcileMapping_def Let_def split: if_splits sum.splits)
  ultimately show ?thesis using assms(2,3) by auto
qed

lemma reconcileLive_publishes:
  assumes "reconcileLive r draw t s = (res, s')"
  shows "publishes_only s s'"
proof -
  let ?n = "gatewayResourceName (t_Name t)" and ?l = "gatewayLabels (t_Name t)"
  obtain p w1 where p: "ensureGatewayPod r t ?n ?l (op_World s) = (p, w1)" by force
  obtain n w2 where n: "ensureNetworkPolicy r t ?n ?l w1 = (n, w2)" by force
  show ?thesis
  proof (cases "isl p \<or> n \<noteq> None")
    case True
    then have "\<exists>w. s' = set_world w s"
      using assms p n by (cases p; cases n) (auto simp: reconcileLive_def)
    then show ?thesis by auto
  next
    case False
    then obtain pod where pod: "p = Inr pod" "n = None" by (cases p) auto
    obtain x s1 where m: "reconcileMapping draw t pod ?n (set_world w2 s) = (x, s1)" by force
    note al = reconcileMapping_allocator [OF m, simplified]
    have fs: "op_ForwarderServer s1 = op_ForwarderServer s" using reconcileMapping_frame(2) [OF m] by simp
    show ?thesis
    proof (cases x)
      case (Inl e)
      then have "s' = s1" using assms p n pod m by (simp add: reconcileLive_def)
      then show ?thesis using al fs by (intro publishes_onlyI [where tys = "[]"]) auto
    next
      case (Inr y)
      obtain t1 c ty where y: "y = (t1, c, ty)" by (metis prod_cases3)
      obtain t2 u q s2 where ev: "evaluatePodPhase r t1 pod s1 = ((t2, u, q), s2)" by (metis prod_cases3 surj_pair)
      obtain e s3 where pp: "persistAndPublish r t t2 (c \<or> u) c ty s2 = (e, s3)" by force
      have s3: "s' = s3" using assms p n pod m Inr y ev pp by (cases e) (simp_all add: reconcileLive_def)
      have s2: "op_ForwarderServer s2 = op_ForwarderServer s" "op_PortAllocator s2 = op_PortAllocator s1"
        using evaluatePodPhase_frame(2) [OF ev] fs by auto
      have "c \<longrightarrow> c \<or> u" by simp
      from pp this show ?thesis
      proof (cases rule: persistAndPublish_cases)
        case (failed z w)
        then show ?thesis using s3 s2 al by (intro publishes_onlyI [where tys = "[]"]) auto
      next
        case (persisted t3)
        then show ?thesis using s3 s2 al by (intro publishes_onlyI) auto
      qed
    qed
  qed
qed

lemma Reconcile_publishes:
  assumes "Reconcile r draw req s = (res, s')"
  shows "publishes_only s s'"
proof -
  obtain s1 where s1: "reconcileTunnel r draw req s = (res, s1)"
      "op_ForwarderServer s' = op_ForwarderServer s1" "op_PortAllocator s' = op_PortAllocator s1"
    using assms by (auto simp: Reconcile_def Let_def split: prod.splits)
  have "publishes_only s s1"
    using s1(1)
    by (auto simp: reconcileTunnel_def Let_def split: prod.splits sum.splits if_splits option.splits
        dest!: handleDeletion_publishes handleTerminated_publishes reconcileLive_publishes)
  then show ?thesis using s1(2,3) by (simp add: publishes_only_def)
qed

end
