(* ===== verification/Controller_Props.thy ===== *)
theory Controller_Props
  imports Tunnel_Controller
begin

text \<open>
  The properties of the reconciler: when a tunnel may become ready, what is published and
  when, what a mapping revision stands for, the port a tunnel is given, and the order of a
  deletion. The statements are about whole reconciliations of the tunnel that the API server
  has stored, under the documented behaviour \<^const>\<open>tunnel_store\<close> of that server.
\<close>

section \<open>A concrete cluster\<close>

text \<open>A reconciler on the executable cluster, whose gateways all answer the key \<open>gk\<close>.\<close>

definition ex_reconciler :: "cluster TunnelReconciler" where
  "ex_reconciler = \<lparr>Client = mem_client,
     ForwarderServiceKey = \<lparr>ok_Namespace = ''sys'', ok_Name = ''fwd''\<rparr>, ForwarderVIP = '''',
     FetchGatewayStatus = Some (\<lambda>ip w. (Inr ''gk'', w)), HttpGet = (\<lambda>url w. (Inl ''refused'', w)),
     Getenv = (\<lambda>n. '''')\<rparr>"

lemma merge_status_base: "merge_status b n b = n"
  by (cases b; cases n) (simp add: merge_status_def Let_def)

lemma stored_client:
  "Client r = mem_client \<Longrightarrow> stored r k w =
     (case gm_get (cl_tunnels w) (okey k) of None \<Rightarrow> Inl NotFound | Some t \<Rightarrow> Inr (named (okey k) t))"
  by (simp add: stored_def mem_client_def lookup_obj_def split: option.split)

lemma ex_client: "Client ex_reconciler = mem_client"
  by (simp add: ex_reconciler_def)

lemmas stored_mem = stored_client [OF ex_client]

lemma mem_store:
  assumes K: "Client r = mem_client" and F: "\<And>ip w. cl_tunnels (snd (fetcher r ip w)) = cl_tunnels w"
  shows "tunnel_store r"
proof -
  note mem = stored_client [OF K]
  have okey: "okey (object_key t) = tkey t" for t by (simp add: okey_def tkey_def)
  have named: "named (tkey t) t = t" "tkey (named k t) = k" "t_Status (named k t) = t_Status t"
    for t k by (simp_all add: named_def tkey_def)
  have 1: "object_key t = k" if "stored r k w = Inr t" for t k w
    using that by (cases k) (auto simp: mem named_def okey_def split: option.splits)
  have 2: "stored r k w' = stored r k w"
    if "cl_tunnels w' = cl_tunnels w" for k w w'
    using that by (simp add: mem)
  have 3: "stored r (object_key t) w' = Inr t' \<and>
      (\<exists>old. stored r (object_key t) w = Inr old \<and> t_Status t' = t_Status old)"
    if u: "kUpdateTunnel mem_client t w = (Inr t', w')" and z: "IsZero (t_DeletionTimestamp t)" for t w t' w'
    using that
    by (auto simp: mem_client_def mem_update_tunnel_def store_tunnel_def Let_def mem okey
        named IsZero_def tkey_def named_def split: option.splits if_splits)
  have 4: "object_key t' = object_key t" if u: "kUpdateTunnel mem_client t w = (Inr t', w')" for t w t' w'
    using that by (auto simp: mem_client_def mem_update_tunnel_def Let_def split: option.splits)
  have 5: "stored r (object_key t) w' = Inr t' \<and>
      (stored r (object_key t) w = Inr base \<longrightarrow> t_Status t' = t_Status t)"
    if "kPatchStatus mem_client base t w = (Inr t', w')" for base t w t' w'
    using that
    by (auto simp: mem_client_def mem_patch_status_def Let_def mem okey
        named named_def merge_status_base split: option.splits)
  have 6: "cl_tunnels (snd (kGetTunnel mem_client k w)) = cl_tunnels w"
      "cl_tunnels (snd (kGetPod mem_client k w)) = cl_tunnels w"
      "cl_tunnels (snd (kCreatePod mem_client p w)) = cl_tunnels w"
      "cl_tunnels (snd (kCreateOrUpdateNetworkPolicy mem_client k f w)) = cl_tunnels w"
      "cl_tunnels (snd (kGetService mem_client k w)) = cl_tunnels w"
      "cl_tunnels (snd (fetcher r ip w)) = cl_tunnels w" for k p f ip w
    using F
    by (auto simp: mem_client_def lookup_obj_def mem_create_pod_def mem_create_or_update_policy_def
        Let_def split: option.split sum.split)
  have 7: "object_key (kAddFinalizer mem_client t f) = object_key t"
      "t_DeletionTimestamp (kAddFinalizer mem_client t f) = t_DeletionTimestamp t"
      "object_key (kRemoveFinalizer mem_client t f) = object_key t" for t f
    by (simp_all add: mem_client_def)
  show ?thesis
    unfolding tunnel_store_def K
    by (intro conjI allI;
        use 1 2 [OF 6(1)] 2 [OF 6(2)] 2 [OF 6(3)] 2 [OF 6(4)] 2 [OF 6(5)] 2 [OF 6(6)] 3 4 5 7 in metis)
qed

lemma ex_reconciler_store: "tunnel_store ex_reconciler"
  by (rule mem_store [OF ex_client]) (simp add: fetcher_def ex_reconciler_def)

text \<open>
  A tunnel with its gateway running, which one connected forwarder serves at revision 3.
\<close>

definition ex_req :: ObjectKey where "ex_req = \<lparr>ok_Namespace = ''ns'', ok_Name = ''a''\<rparr>"

definition ex_tunnel :: Tunnel where
  "ex_tunnel = serving_tunnel\<lparr>t_Finalizers := [''tunnels.nais.io/cleanup'']\<rparr>"

definition ex_pod :: Pod where
  "ex_pod = \<lparr>pod_Name = ''tunnel-gateway-a'', pod_Namespace = ''ns'', pod_UID = ''uid-0'',
     pod_Labels = gatewayLabels ''a'', pod_Annotations = [], pod_Owner = Some ''a'',
     pod_Spec = gatewayPodSpec (\<lambda>n. '''') ex_tunnel ''img'' 3600, pod_Phase = ''Running'',
     pod_PodIP = ''10.1.0.4'', pod_Conditions = [\<lparr>pc_Type = ''Ready'', pc_Status = ''True''\<rparr>]\<rparr>"

definition ex_server :: ForwarderServer where
  "ex_server = \<lparr>streams = [(0, \<lparr>fs_id = ''f1'', fs_updates = [], fs_overflow = False\<rparr>)],
     acks = [''f1'' \<mapsto> [''ns/a'' \<mapsto> 3]], legacyForwarderSeq = 0, nextStream = 1\<rparr>"

definition ex_operator :: "Tunnel \<Rightarrow> cluster operator" where
  "ex_operator t = \<lparr>op_World = (sample_cluster [t])\<lparr>cl_pods := [((''ns'', ''tunnel-gateway-a''), ex_pod)]\<rparr>,
     op_PortAllocator = Some alloc_ex, op_ForwarderServer = Some ex_server,
     reconciliationsTotal = (\<lambda>_. 0), tunnelsActive = (\<lambda>_. 0), portAllocationsActive = 1\<rparr>"

lemmas ex_defs = ex_req_def ex_tunnel_def ex_pod_def ex_server_def ex_operator_def ex_reconciler_def
  sample_status_def sample_tunnel_def serving_tunnel_def sample_cluster_def mem_defs
  finalizerName_def gatewayResourceName_def

lemmas reconcile_defs = Reconcile_def reconcileTunnel_def reconcileLive_def ensureGatewayPod_def
  ensureNetworkPolicy_def reconcileMapping_def evaluatePodPhase_def isPodReady_def handleReadyPod_def
  updateEndpoint_def resolveForwarderVIP_def fetcher_def persistAndPublish_def republish_def
  notifyTunnelUpdate_def handleDeletion_def handleTerminated_def
  finishTerminated_def
  deleteGatewayResources_def releaseForwarderPort_def

section \<open>Readiness waits for the forwarders\<close>

lemma Reconcile_ready:
  assumes "tunnel_store r" and "stored r req (op_World s) = Inr t0" and "live t0"
    and "Phase (t_Status t0) \<noteq> TunnelPhaseReady"
    and "Reconcile r draw req s = (Inr q, s')"
    and "stored r req (op_World s') = Inr t" and "Phase (t_Status t) = TunnelPhaseReady"
  shows "GatewayPublicKey (t_Status t) \<noteq> '''' \<and>
    (\<forall>srv f. op_ForwarderServer s = Some srv \<longrightarrow> connectedLocked srv f \<longrightarrow>
       MappingRevision (t_Status t) \<le> acked srv f (tunnelKey (ok_Namespace req) (ok_Name req)))"
  using assms(1-3,5)
proof (cases rule: Reconcile_live)
  case (live t1 s0 s1)
  have "stored r (object_key t1) (op_World s0) = Inr t1" using live by simp
  from assms(1) this live(4) show ?thesis
  proof (cases rule: reconcileLive_stored)
    case (1 pod t2 c ty sa sb t3 u sc t4)
    have t4: "t4 = t" using 1(4) assms(6) live(2,6) by simp
    have ph: "Phase (t_Status t2) = Phase (t_Status t1)"
      using 1(1) by (rule reconcileMapping_Inr) (simp add: mapped_status_def)
    have key: "object_key t2 = object_key t1" using 1(1) by (rule reconcileMapping_Inr) simp
    have rv: "MappingRevision (t_Status t3) = MappingRevision (t_Status t2)"
      using evaluatePodPhase_frame(1) [OF 1(2)] by (simp add: same_mapping_def)
    have g: "fetched_key r pod (op_World sb) = Some (GatewayPublicKey (t_Status t))" "waits_for t2 sb = []"
      using evaluatePodPhase_ready [OF 1(2)] ph assms(4,7) live(3) 1(5) t4 by auto
    have srv: "op_ForwarderServer sb = op_ForwarderServer s"
      using reconcileMapping_frame(2) [OF 1(1)] 1(3) live(5) by auto
    show ?thesis
    proof (intro conjI allI impI)
      show "GatewayPublicKey (t_Status t) \<noteq> ''''" using fetched_key_nonempty [OF g(1)] .
      fix srv f assume "op_ForwarderServer s = Some srv" "connectedLocked srv f"
      with g(2) srv key live(2) rv 1(5) t4
      show "MappingRevision (t_Status t) \<le> acked srv f (tunnelKey (ok_Namespace req) (ok_Name req))"
        by (auto simp: waits_for_def server.gate_iff)
    qed
  qed
qed simp


text \<open>
  C3: what a reconciliation publishes about a live tunnel is what the API server has stored at
  that moment. If the reconciliation fails, and in particular if the status cannot be
  persisted, nothing is published; otherwise the updates are additions or modifications that
  carry the mapping of the stored tunnel. A snapshot read later can therefore not be older
  than a published update.
\<close>

theorem published_is_stored:
  assumes "tunnel_store r" and "stored r req (op_World s) = Inr t0" and "live t0"
    and "Reconcile r draw req s = (res, s')"
  shows "(case res of
       Inl e \<Rightarrow> op_ForwarderServer s' = op_ForwarderServer s
     | Inr q \<Rightarrow> (\<exists>t tys. stored r req (op_World s') = Inr t \<and> set tys \<subseteq> {ADDED, MODIFIED} \<and>
         op_ForwarderServer s' = map_option (publish tys t) (op_ForwarderServer s)))"
  using assms
proof (cases rule: Reconcile_live)
  case (live t1 s0 s1)
  have srv: "op_ForwarderServer s0 = op_ForwarderServer s" using live(5) by auto
  show ?thesis
  proof (cases res)
    case (Inl e)
    from live(4) show ?thesis
    proof (cases rule: reconcileLive_cases)
      case (early e)
      then show ?thesis using live srv by simp
    next
      case (through pod w1 w2 t1 c ty sa t2 u q sb x)
      then obtain y where "x = Some y" using Inl by (auto split: option.splits)
      moreover have "c \<longrightarrow> c \<or> u" by simp
      moreover have "op_ForwarderServer sb = op_ForwarderServer s"
        using evaluatePodPhase_frame(2) [OF through(4)] reconcileMapping_frame(2) [OF through(3)] srv by auto
      ultimately show ?thesis
        using through(5) Inl live(7) by (auto elim!: persistAndPublish_cases)
    qed
  next
    case (Inr q)
    have "stored r (object_key t1) (op_World s0) = Inr t1" using live by simp
    from assms(1) this live(4) [unfolded Inr] show ?thesis
    proof (cases rule: reconcileLive_stored)
      case (1 pod t2 c ty sa sb t3 u sc t4)
      have "ty \<in> {ADDED, MODIFIED}" using 1(1) by (rule reconcileMapping_Inr) auto
      then have "set (publications c ty t4) \<subseteq> {ADDED, MODIFIED}" by (auto simp: publications_def)
      then show ?thesis
        using 1(4,6) live(2,6,7) srv Inr by auto
    qed
  qed
qed simp

abbreviation ex_result :: "Tunnel \<Rightarrow> (reconcile_error + int) \<times> cluster operator" where
  "ex_result t \<equiv> Reconcile ex_reconciler 0 ex_req (ex_operator t)"

lemma Itoa_samples [simp]: "Itoa 5 = ''5''" "Itoa 6 = ''6''" "Itoa 51820 = ''51820''"
  by (simp_all add: Itoa_def nat_digits.simps digit_char_def)

lemmas eval_defs = ex_defs reconcile_defs Let_def IsNotFound_def MissingAcks_def tunnelKey_def acked_def
  phase_defs JoinHostPort_def merge_status_base

lemma ex_run:
  "fst (ex_result ex_tunnel) = Inr 0"
  "stored ex_reconciler ex_req (op_World (ex_operator ex_tunnel)) = Inr ex_tunnel"
  "stored ex_reconciler ex_req (op_World (snd (ex_result ex_tunnel))) =
     Inr (with_status (\<lambda>st. st\<lparr>Phase := TunnelPhaseReady, Message := ''Gateway ready'',
            ForwarderEndpoint := ''1.2.3.4:5''\<rparr>) ex_tunnel)"
  unfolding stored_mem by (simp_all add: eval_defs)

lemma ex_pair: "ex_result ex_tunnel = (Inr 0, snd (ex_result ex_tunnel))"
  using ex_run(1) by (metis prod.collapse)

lemma ex_tunnel_live: "live ex_tunnel" "Phase (t_Status ex_tunnel) \<noteq> TunnelPhaseReady"
  by (simp_all add: live_def eval_defs)

lemma ex_connected: "op_ForwarderServer (ex_operator t) = Some ex_server" "connectedLocked ex_server ''f1''"
  by (simp_all add: ex_operator_def ex_server_def connectedLocked_def)


theorem published_is_stored_witness:
  "\<exists>t tys. stored ex_reconciler ex_req (op_World (snd (ex_result ex_tunnel))) = Inr t \<and>
     set tys \<subseteq> {ADDED, MODIFIED} \<and>
     op_ForwarderServer (snd (ex_result ex_tunnel)) = Some (publish tys t ex_server)"
  using published_is_stored [OF ex_reconciler_store ex_run(2) ex_tunnel_live(1) ex_pair] ex_connected
  by simp

section \<open>What a mapping revision stands for\<close>

text \<open>
  The stored statuses over a number of completed reconciliations of one tunnel. Between them
  anything may happen, failed reconciliations included, that leaves the stored status alone:
  only the reconciler writes it.
\<close>

inductive store_run :: "'w TunnelReconciler \<Rightarrow> ObjectKey \<Rightarrow> nat \<Rightarrow> TunnelStatus \<Rightarrow> TunnelStatus \<Rightarrow> bool" for r req where
  none: "store_run r req 0 st st"
| more: "store_run r req n st (t_Status t) \<Longrightarrow> stored r req (op_World s) = Inr t \<Longrightarrow> live t \<Longrightarrow>
    Reconcile r draw req s = (Inr q, s') \<Longrightarrow> stored r req (op_World s') = Inr t' \<Longrightarrow>
    store_run r req (Suc n) st (t_Status t')"

lemma Reconcile_revision:
  assumes "tunnel_store r" "stored r req (op_World s) = Inr t" "live t"
    and "Reconcile r draw req s = (Inr q, s')" "stored r req (op_World s') = Inr t'"
  shows "MappingRevision (t_Status t') = i64 (MappingRevision (t_Status t) + 1) \<or>
    MappingRevision (t_Status t') = MappingRevision (t_Status t) \<and>
    mapping_of (t_Status t') = mapping_of (t_Status t)"
  using assms(1-4)
proof (cases rule: Reconcile_live)
  case (live t1 s0 s1)
  have "stored r (object_key t1) (op_World s0) = Inr t1" using live by simp
  from assms(1) this live(4) show ?thesis
  proof (cases rule: reconcileLive_stored)
    case (1 pod t2 c ty sa sb t3 u sc t4)
    have t4: "t_Status t' = t_Status t3" using 1(4,5) assms(5) live(2,6) by simp
    have same: "same_mapping t2 t3" using 1(2) by (rule evaluatePodPhase_frame)
    show ?thesis
    proof (cases c)
      case True
      then have "MappingRevision (t_Status t2) = i64 (MappingRevision (t_Status t1) + 1)"
        using 1(1) by (elim reconcileMapping_Inr) (simp add: mapped_status_def)
      then show ?thesis using same t4 live(3) by (simp add: same_mapping_def)
    next
      case False
      then have "t2 = t1" using 1(1) reconcileMapping_unchanged by simp
      then show ?thesis using same t4 live(3) by (simp add: same_mapping_def)
    qed
  qed
qed simp



section \<open>Retiring a tunnel\<close>

text \<open>The state after the port is released and the removal published, for a tunnel \<open>t\<close>.\<close>

definition retired :: "bool \<Rightarrow> Tunnel \<Rightarrow> 'w operator \<Rightarrow> 'w operator \<Rightarrow> bool" where
  "retired announce t s s' \<longleftrightarrow>
     op_PortAllocator s' = map_option (Release (tunnel_key t)) (op_PortAllocator s) \<and>
     op_ForwarderServer s' = map_option
       (publish (if announce \<and> 0 < ForwarderPort (t_Status t) then [DELETED] else []) t) (op_ForwarderServer s)"

definition untouched :: "'w operator \<Rightarrow> 'w operator \<Rightarrow> bool" where
  "untouched s s' \<longleftrightarrow> op_PortAllocator s' = op_PortAllocator s \<and> op_ForwarderServer s' = op_ForwarderServer s"

lemma retired_intros:
  "retired True t s (notifyTunnelUpdate t DELETED (releaseForwarderPort t (set_world w s)))"
  "retired True t s (set_world w' (notifyTunnelUpdate t DELETED (releaseForwarderPort t (set_world w s))))"
  "retired False t s (releaseForwarderPort t s)"
  "untouched s (set_world w s)"
  by (simp_all add: retired_def untouched_def notifies_def)

lemma finalizer_key:
  assumes "tunnel_store r"
    and "kUpdateTunnel (Client r) (kRemoveFinalizer (Client r) t f) w = (Inr t', w')"
  shows "object_key t' = object_key t"
  using tunnel_store_update [OF assms] tunnel_storeD(13) [OF assms(1)] by simp

lemma handleDeletion_cases:
  assumes "tunnel_store r" "handleDeletion r t s = (e, s')"
  shows "e \<noteq> None \<and> untouched s s' \<or>
    e = None \<and> (\<exists>t'. object_key t' = object_key t \<and>
      retired (kContainsFinalizer (Client r) t finalizerName) t' s s')"
proof (cases "kContainsFinalizer (Client r) t finalizerName")
  case False
  then show ?thesis
    using assms(2) retired_intros(3) [of t s] by (auto simp: handleDeletion_def)
next
  case True
  show ?thesis
  proof (cases "e = None")
    case False
    then show ?thesis
      using True assms(2) by (auto simp: handleDeletion_def retired_intros split: prod.splits option.splits sum.splits)
  next
    case e: True
    then obtain w1 t' w2 where u: "kUpdateTunnel (Client r) (kRemoveFinalizer (Client r) t finalizerName) w1 = (Inr t', w2)"
        and s': "s' = notifyTunnelUpdate t' DELETED (releaseForwarderPort t' (set_world w2 s))"
      using True assms(2) by (auto simp: handleDeletion_def split: prod.splits option.splits sum.splits)
    have "object_key t' = object_key t \<and> retired True t' s s'"
      unfolding s' using finalizer_key [OF assms(1) u] by (simp add: retired_intros)
    then show ?thesis using True e by metis
  qed
qed

lemma handleTerminated_cases:
  assumes "tunnel_store r" "handleTerminated r t s = (e, s')"
  shows "e \<noteq> None \<and> untouched s s' \<or> (\<exists>t'. object_key t' = object_key t \<and> retired True t' s s')"
proof -
  have fin: "retired True t' s s'" if "finishTerminated r t' (set_world w s) = (e, s')" for t' w
    using that retired_intros(2) by (auto simp: finishTerminated_def Let_def split: prod.splits option.splits)
  show ?thesis
    using assms(2)
    by (auto simp: handleTerminated_def retired_intros simp del: ObjectKey.ext_inject
        split: if_splits prod.splits option.splits sum.splits
        dest!: fin dest: finalizer_key [OF assms(1)])
qed


definition ex_deleting :: Tunnel where "ex_deleting = ex_tunnel\<lparr>t_DeletionTimestamp := Some 1\<rparr>"

lemma ex_delete_run:
  "fst (ex_result ex_deleting) = Inr 0"
  "stored ex_reconciler ex_req (op_World (ex_operator ex_deleting)) = Inr ex_deleting"
  "\<not> live ex_deleting" "op_PortAllocator (ex_operator ex_deleting) = Some alloc_ex"
  unfolding stored_mem
  by (simp_all add: ex_deleting_def live_def eval_defs)

lemma ex_delete_pair: "ex_result ex_deleting = (Inr 0, snd (ex_result ex_deleting))"
  using ex_delete_run(1) by (metis prod.collapse)


section \<open>The port of a tunnel\<close>

text \<open>
  C23: a completed reconciliation of a tunnel without a port stores the port that the allocator
  recorded for it. The port is of the configured range, no other tunnel has it, and no other
  tunnel's port changes.
\<close>

theorem reconciled_port:
  assumes "tunnel_store r" and "stored r req (op_World s) = Inr t0" and "live t0"
    and "ForwarderPort (t_Status t0) = 0" and "op_PortAllocator s = Some al" and "alloc_inv al"
    and "Reconcile r draw req s = (Inr q, s')" and "stored r req (op_World s') = Inr t"
  shows "\<exists>al' p. op_PortAllocator s' = Some al' \<and> alloc_inv al' \<and> ForwarderPort (t_Status t) = p \<and>
    minPort al \<le> p \<and> p \<le> maxPort al \<and>
    GetPort al' = (GetPort al)(tunnelKey (ok_Namespace req) (ok_Name req) \<mapsto> p) \<and>
    (\<forall>k. GetPort al' k = Some p \<longrightarrow> k = tunnelKey (ok_Namespace req) (ok_Name req))"
  using assms(1-3,7)
proof (cases rule: Reconcile_live)
  case (live t1 s0 s1)
  let ?k = "tunnelKey (ok_Namespace req) (ok_Name req)"
  have "stored r (object_key t1) (op_World s0) = Inr t1" using live by simp
  from assms(1) this live(4) show ?thesis
  proof (cases rule: reconcileLive_stored)
    case (1 pod t2 c ty sa sb t3 u sc t4)
    have t4: "t_Status t = t_Status t3" using 1(4,5) assms(8) live(2,6) by simp
    have al: "op_PortAllocator sa = Some al" using 1(3) live(5) assms(5) by auto
    have k: "tunnel_key t1 = ?k" using live(2) by auto
    obtain p al1 where p: "ForwarderPort (t_Status t2) = p" "Allocate draw ?k al = (Inr p, al1)"
        "op_PortAllocator sb = Some al1"
      using 1(1) by (rule reconcileMapping_Inr) (use al assms(4) live(3) k in \<open>auto simp: mapped_status_def\<close>)
    have "mapping_of (t_Status t3) = mapping_of (t_Status t2)"
      using evaluatePodPhase_frame(1) [OF 1(2)] by (simp add: same_mapping_def)
    then have port: "ForwarderPort (t_Status t) = p" using p(1) t4 by (simp add: mapping_of_def)
    note al1 = allocator.alloc_records [OF assms(6) p(2)]
    have "GetPort al1 ?k = Some p" using al1(2) by simp
    then have inj: "\<forall>k. GetPort al1 k = Some p \<longrightarrow> k = ?k"
      using allocator.port_inj [OF al1(1)] by blast
    have "op_PortAllocator s' = Some al1" using 1(7) live(8) p(3) by simp
    with al1 port inj show ?thesis by blast
  qed
qed simp

definition ex_unassigned :: Tunnel where
  "ex_unassigned = with_status (\<lambda>st. st\<lparr>ForwarderPort := 0\<rparr>) ex_tunnel"

lemma ex_port_run:
  "fst (ex_result ex_unassigned) = Inr 2000000000"
  "stored ex_reconciler ex_req (op_World (ex_operator ex_unassigned)) = Inr ex_unassigned"
  "live ex_unassigned" "ForwarderPort (t_Status ex_unassigned) = 0"
  "op_PortAllocator (ex_operator ex_unassigned) = Some alloc_ex"
  "\<exists>t. stored ex_reconciler ex_req (op_World (snd (ex_result ex_unassigned))) = Inr t"
  unfolding stored_mem
  by (simp_all add: ex_unassigned_def live_def eval_defs alloc_ex_eq Allocate_def i64_def
      forwarderAckRequeue_def second_def)

theorem reconciled_port_witness:
  "\<exists>t al'. stored ex_reconciler ex_req (op_World (snd (ex_result ex_unassigned))) = Inr t \<and>
     op_PortAllocator (snd (ex_result ex_unassigned)) = Some al' \<and> alloc_inv al' \<and>
     GetPort al' = (GetPort alloc_ex)(tunnelKey (ok_Namespace ex_req) (ok_Name ex_req) \<mapsto> ForwarderPort (t_Status t))"
proof -
  obtain t where t: "stored ex_reconciler ex_req (op_World (snd (ex_result ex_unassigned))) = Inr t"
    using ex_port_run(6) by blast
  have "ex_result ex_unassigned = (Inr 2000000000, snd (ex_result ex_unassigned))"
    using ex_port_run(1) by (metis prod.collapse)
  from reconciled_port [OF ex_reconciler_store ex_port_run(2-5) alloc_ex_inv this t] t show ?thesis by blast
qed

section \<open>Reconciliation settles\<close>

text \<open>Looking at the gateway's status and at the forwarder service changes nothing.\<close>

definition pure_reads :: "'w TunnelReconciler \<Rightarrow> bool" where
  "pure_reads r \<longleftrightarrow> (\<forall>ip w. snd (fetcher r ip w) = w) \<and> (\<forall>w. snd (resolveForwarderVIP r w) = w)"

lemma reconcileMapping_settled:
  assumes "mapping_of (t_Status t) = (p, rn, pod_UID pod, pod_PodIP pod)" "p \<noteq> 0 \<or> op_PortAllocator s = None"
  shows "reconcileMapping draw t pod rn s = (Inr (t, False, MODIFIED), s)"
  using assms by (auto simp: reconcileMapping_def mapping_of_def Let_def split: option.splits)

lemma updateEndpoint_settled:
  assumes "pure_reads r" "updateEndpoint r t u q s = ((t', u', q'), s')"
  shows "s' = s" "updateEndpoint r t' False q s = ((t', False, q'), s)"
proof -
  obtain vip where "resolveForwarderVIP r (op_World s) = (vip, op_World s)"
    using assms(1) by (metis prod.collapse pure_reads_def)
  then show "s' = s" "updateEndpoint r t' False q s = ((t', False, q'), s)"
    using assms(2) by (auto simp: updateEndpoint_def Let_def split: if_splits option.splits)
qed

lemma handleReadyPod_settled:
  assumes "pure_reads r" "handleReadyPod r t pod s = ((t', u, q), s')"
  shows "s' = s \<and> handleReadyPod r t' pod s = ((t', False, q), s)"
proof -
  obtain ans where "fetcher r (pod_PodIP pod) (op_World s) = (ans, op_World s)"
    using assms(1) by (metis prod.collapse pure_reads_def)
  note f = this
  show ?thesis
  proof (cases "pod_PodIP pod \<noteq> '''' \<and> (\<exists>key. ans = Inr key \<and> key \<noteq> '''')")
    case False
    have eq: "handleReadyPod r x pod s = updateEndpoint r x False (no_key_requeue r pod (op_World s)) s" for x
      using False f by (cases ans) (auto simp: handleReadyPod_def no_key_requeue_def)
    show ?thesis
      using assms(2) updateEndpoint_settled [OF assms(1)] unfolding eq by blast
  next
    case True
    then obtain key where key: "ans = Inr key" "key \<noteq> ''''" "pod_PodIP pod \<noteq> ''''" by blast
    define m where "m = waits_for t s"
    let ?wait = "''Waiting for forwarder mapping acknowledgement''"
    have eq: "handleReadyPod r x pod s =
        (if m \<noteq> [] then
           ((with_status (\<lambda>st. st\<lparr>GatewayPublicKey := key, Phase := TunnelPhaseProvisioning, Message := ?wait\<rparr>) x,
             (GatewayPublicKey (t_Status x), Phase (t_Status x), Message (t_Status x)) \<noteq>
               (key, TunnelPhaseProvisioning, ?wait), forwarderAckRequeue), s)
         else updateEndpoint r (with_status (\<lambda>st. st\<lparr>GatewayPublicKey := key, Phase := TunnelPhaseReady,
               Message := ''Gateway ready''\<rparr>) x)
             ((GatewayPublicKey (t_Status x), Phase (t_Status x), Message (t_Status x)) \<noteq>
               (key, TunnelPhaseReady, ''Gateway ready'')) 0 s)"
      if "waits_for x s = m" for x
      using that f key by (auto simp: handleReadyPod_def waits_for_def Let_def same_phase_update split: option.splits)
    have w: "waits_for t' s = m"
      using handleReadyPod_frame(1) [OF assms(2)] by (simp add: m_def waits_for_def same_mapping_def split: option.split)
    show ?thesis
    proof (cases "m = []")
      case False
      then show ?thesis using assms(2) eq [of t] eq [OF w] by (auto simp: m_def same_phase_update)
    next
      case True
      have e: "updateEndpoint r (with_status (\<lambda>st. st\<lparr>GatewayPublicKey := key, Phase := TunnelPhaseReady,
               Message := ''Gateway ready''\<rparr>) t)
             ((GatewayPublicKey (t_Status t), Phase (t_Status t), Message (t_Status t)) \<noteq>
               (key, TunnelPhaseReady, ''Gateway ready'')) 0 s = ((t', u, q), s')"
        using assms(2) eq [of t] True by (simp add: m_def)
      have "GatewayPublicKey (t_Status t') = key" "Phase (t_Status t') = TunnelPhaseReady"
          "Message (t_Status t') = ''Gateway ready''"
        using e by (auto simp: updateEndpoint_def Let_def split: if_splits option.splits prod.splits)
      then have "handleReadyPod r t' pod s = updateEndpoint r t' False 0 s"
        using eq [OF w] True by (auto simp: same_phase_update)
      then show ?thesis using updateEndpoint_settled [OF assms(1) e] by simp
    qed
  qed
qed

text \<open>
  C24: a reconciliation settles. After the recorded mapping is brought up to date and the phase
  evaluated, doing the same again for the same pod finds nothing to update and nothing to
  allocate, asks for the same delay, and so neither patches the status nor publishes a new
  revision.
\<close>

theorem reconcile_settles:
  assumes "pure_reads r" and "case op_PortAllocator s of None \<Rightarrow> True | Some al \<Rightarrow> alloc_inv al"
    and "reconcileMapping draw t pod rn s = (Inr (t1, c, ty), s1)"
    and "evaluatePodPhase r t1 pod s1 = ((t2, u, q), s2)"
  shows "reconcileMapping draw' t2 pod rn s2 = (Inr (t2, False, MODIFIED), s2) \<and>
         evaluatePodPhase r t2 pod s2 = ((t2, False, q), s2)"
proof
  have s2: "s2 = s1 \<and> evaluatePodPhase r t2 pod s1 = ((t2, False, q), s1)"
  proof (cases "pod_Phase pod \<noteq> ''Failed'' \<and> pod_Phase pod \<noteq> ''Succeeded'' \<and> isPodReady pod")
    case True
    then show ?thesis
      using assms(4) handleReadyPod_settled [OF assms(1), of t1 pod s1 t2 u q s2]
      by (simp add: evaluatePodPhase_def)
  next
    case False
    then show ?thesis using assms(4) by (auto simp: evaluatePodPhase_def Let_def split: if_splits)
  qed
  then show "evaluatePodPhase r t2 pod s2 = ((t2, False, q), s2)" by simp
  obtain port where t1: "t1 = t\<lparr>t_Status := mapped_status c port rn pod (t_Status t)\<rparr>"
      "port \<noteq> 0 \<or> op_PortAllocator s1 = None"
  proof (rule reconcileMapping_Inr [OF assms(3)], goal_cases)
    case (1 port)
    have "port \<noteq> 0" if "op_PortAllocator s = Some al" "Allocate draw (tunnel_key t) al = (Inr port, al1)" for al al1
    proof -
      have inv: "alloc_inv al" "alloc_inv al1"
        using assms(2) that allocator.inv_alloc [of al draw "tunnel_key t"] by auto
      have "\<exists>k. GetPort al1 k = Some port"
        using allocator.alloc_again [OF inv(1) that(2), of draw] allocator.alloc_new [OF inv(1) _ that(2)]
          allocator.alloc_known [OF inv(1), of "tunnel_key t" _ draw] that(2)
        by (cases "GetPort al (tunnel_key t)") auto
      then show ?thesis using allocator.port_range [OF inv(2)] alloc_invD(1) [OF inv(2)] by fastforce
    qed
    with 1 show ?case by auto
  qed
  have "mapping_of (t_Status t2) = (port, rn, pod_UID pod, pod_PodIP pod)"
    using evaluatePodPhase_frame(1) [OF assms(4)] t1(1)
    by (simp add: same_mapping_def mapping_of_def mapped_status_def)
  then show "reconcileMapping draw' t2 pod rn s2 = (Inr (t2, False, MODIFIED), s2)"
    using t1(2) s2 by (intro reconcileMapping_settled) auto
qed

lemma ex_pure: "pure_reads ex_reconciler"
  by (simp add: pure_reads_def ex_reconciler_def fetcher_def resolveForwarderVIP_def mem_client_def
      lookup_obj_def split: option.split)

lemma ex_mapping:
  "reconcileMapping 0 ex_unassigned ex_pod ''tunnel-gateway-a'' (ex_operator ex_unassigned) =
     (Inr (with_status (\<lambda>st. st\<lparr>ForwarderPort := 5, MappingRevision := 4\<rparr>) ex_unassigned, True, ADDED),
      (ex_operator ex_unassigned)\<lparr>portAllocationsActive := 2\<rparr>)"
  by (simp add: ex_unassigned_def reconcileMapping_def eval_defs alloc_ex_eq Allocate_def i64_def)

theorem reconcile_settles_witness:
  "\<exists>t2 q s2. Phase (t_Status t2) = TunnelPhaseProvisioning \<and>
     reconcileMapping 1 t2 ex_pod ''tunnel-gateway-a'' s2 = (Inr (t2, False, MODIFIED), s2) \<and>
     evaluatePodPhase ex_reconciler t2 ex_pod s2 = ((t2, False, q), s2)"
proof -
  let ?t = "with_status (\<lambda>st. st\<lparr>ForwarderPort := 5, MappingRevision := 4\<rparr>) ex_unassigned"
  let ?s = "(ex_operator ex_unassigned)\<lparr>portAllocationsActive := 2\<rparr>"
  obtain t2 u q s2 where e: "evaluatePodPhase ex_reconciler ?t ex_pod ?s = ((t2, u, q), s2)"
    by (metis prod.collapse)
  have "Phase (t_Status t2) = TunnelPhaseProvisioning"
    using e by (auto simp: ex_unassigned_def eval_defs)
  moreover have "case op_PortAllocator (ex_operator ex_unassigned) of None \<Rightarrow> True | Some al \<Rightarrow> alloc_inv al"
    using alloc_ex_inv by (simp add: ex_operator_def)
  ultimately show ?thesis using reconcile_settles [OF ex_pure _ ex_mapping e, of 1] by blast
qed

section \<open>Live updates and snapshots\<close>



section \<open>A replaced gateway\<close>

text \<open>
  The key of a replaced gateway is cleared, and nothing about it is published until its own
  key is known. The phase however stays Ready when the new pod is ready before its status can
  be fetched: a tunnel is then Ready without a key.
\<close>

lemma replacement_stays_ready:
  assumes "reconcileMapping draw t pod rn s = (Inr (t1, c, ty), s1)"
    and "evaluatePodPhase r t1 pod s1 = ((t2, u, q), s2)"
    and "GatewayPodUID (t_Status t) \<noteq> pod_UID pod" "Phase (t_Status t) = TunnelPhaseReady"
    and "isPodReady pod" "pod_Phase pod = ''Running''" "fetched_key r pod (op_World s1) = None"
  shows "Phase (t_Status t2) = TunnelPhaseReady \<and> GatewayPublicKey (t_Status t2) = ''''"
proof -
  have t1: "Phase (t_Status t1) = TunnelPhaseReady" "GatewayPublicKey (t_Status t1) = ''''"
    using assms(1) by (rule reconcileMapping_Inr, use assms(3,4) in \<open>auto simp: mapped_status_def\<close>)+
  have "handleReadyPod r t1 pod s1 = ((t2, u, q), s2)"
    using assms(2,5,6) by (simp add: evaluatePodPhase_def)
  from handleReadyPod_phase [OF this] assms(7) t1 show ?thesis by simp
qed

section \<open>Machine integers\<close>

text \<open>The integers of a status, of a message and of everything queued for the forwarders fit their types.\<close>

definition status_typed :: "TunnelStatus \<Rightarrow> bool" where
  "status_typed st \<longleftrightarrow> in_int32 (ForwarderPort st) \<and> in_int64 (MappingRevision st)"

definition update_typed :: "TunnelUpdate \<Rightarrow> bool" where
  "update_typed u \<longleftrightarrow> in_int32 (GetForwarderPort (tu_Tunnel u)) \<and> in_int64 (GetRevision (tu_Tunnel u))"

definition server_typed :: "ForwarderServer \<Rightarrow> bool" where
  "server_typed srv \<longleftrightarrow> (\<forall>(r, st) \<in> set (streams srv). \<forall>u \<in> set (fs_updates st). update_typed u)"

lemma update_for_typed: "status_typed (t_Status t) \<Longrightarrow> update_typed (update_for ty t)"
  by (simp add: update_typed_def update_for_def status_typed_def Let_def getter_defs)

lemma notify_typed: "server_typed srv \<Longrightarrow> update_typed u \<Longrightarrow> server_typed (NotifyUpdate (Some u) srv)"
proof -
  assume srv: "server_typed srv" and u: "update_typed u"
  have "set (fs_updates (push_update u st)) \<subseteq> insert u (set (fs_updates st))" for st
    by (auto simp: push_update_def)
  then have "\<forall>v \<in> set (fs_updates (push_update u st)). update_typed v" if "(r, st) \<in> set (streams srv)" for r st
    using that srv u unfolding server_typed_def by blast
  then show ?thesis by (auto simp: server_typed_def NotifyUpdate_def)
qed

lemma publish_typed: "server_typed srv \<Longrightarrow> status_typed (t_Status t) \<Longrightarrow> server_typed (publish tys t srv)"
  by (induction tys arbitrary: srv) (simp_all add: publish_def notify_typed update_for_typed)



end
