(* ===== verification/Process_Env.thy ===== *)
theory Process_Env
  imports Go_Strings
begin

text \<open>
  How the three programs under \<open>cmd\<close> read their environment. \<open>os.Getenv\<close> is a function from
  names to values, empty for a variable that is not set. A program that exits for a missing
  variable has no result.
\<close>

type_synonym environment = "string \<Rightarrow> string"

datatype Level = LevelDebug | LevelInfo | LevelWarn | LevelError

section \<open>cmd/main.go\<close>

definition parseLogLevel :: "string \<Rightarrow> Level" where
  "parseLogLevel raw =
     (let s = ToLower (TrimSpace raw)
      in if s = ''debug'' then LevelDebug
         else if s = ''warn'' \<or> s = ''warning'' then LevelWarn
         else if s = ''error'' then LevelError
         else LevelInfo)"

text \<open>The parsed value fits 32 bits, so that the conversion to \<open>int32\<close> keeps it.\<close>

definition envInt32 :: "environment \<Rightarrow> string \<Rightarrow> int \<Rightarrow> int" where
  "envInt32 env key fallback =
     (let v = env key
      in if v = '''' then fallback
         else case ParseInt 32 v of None \<Rightarrow> fallback | Some n \<Rightarrow> i32 n)"

section \<open>cmd/forwarder/main.go\<close>

definition parseLogLevel_forwarder :: "string \<Rightarrow> Level \<times> string option" where
  "parseLogLevel_forwarder raw =
     (let s = ToLower (TrimSpace raw)
      in if s = ''debug'' then (LevelDebug, None)
         else if s = ''info'' \<or> s = '''' then (LevelInfo, None)
         else if s = ''warn'' \<or> s = ''warning'' then (LevelWarn, None)
         else if s = ''error'' then (LevelError, None)
         else (LevelInfo, Some (''invalid LOG_LEVEL: '' @ raw)))"

definition envOrDefault :: "environment \<Rightarrow> string \<Rightarrow> string \<Rightarrow> string" where
  "envOrDefault env key fallback = (let v = TrimSpace (env key) in if v = '''' then fallback else v)"

definition requireEnv :: "environment \<Rightarrow> string \<Rightarrow> string option" where
  "requireEnv env key = (let v = TrimSpace (env key) in if v = '''' then None else Some v)"

text \<open>\<open>hostname\<close> is what \<open>os.Hostname\<close> returns.\<close>

definition forwarderIdentity :: "environment \<Rightarrow> string + string \<Rightarrow> string" where
  "forwarderIdentity env hostname =
     (let fid = TrimSpace (env ''FORWARDER_ID'')
      in if fid \<noteq> '''' then fid
         else case hostname of
             Inr h \<Rightarrow> if h \<noteq> '''' then h else ''forwarder''
           | Inl err \<Rightarrow> ''forwarder'')"

section \<open>cmd/gateway/main.go\<close>

definition parseLogLevel_gateway :: "string \<Rightarrow> Level" where
  "parseLogLevel_gateway raw =
     (let s = ToLower (TrimSpace raw)
      in if s = ''debug'' then LevelDebug
         else if s = ''warn'' \<or> s = ''warning'' then LevelWarn
         else if s = ''error'' then LevelError
         else LevelInfo)"

definition requireEnv_gateway :: "environment \<Rightarrow> string \<Rightarrow> string option" where
  "requireEnv_gateway env key = (let v = TrimSpace (env key) in if v = '''' then None else Some v)"

section \<open>Properties\<close>

lemma forwarderIdentity_nonempty: "forwarderIdentity env hostname \<noteq> ''''"
  by (simp add: forwarderIdentity_def Let_def split: sum.split)

lemma requireEnv_Some: "requireEnv env key = Some v \<Longrightarrow> v \<noteq> '''' \<and> v = TrimSpace (env key)"
  by (auto simp: requireEnv_def Let_def split: if_splits)

text \<open>The programs agree on the log level; only the forwarder reports what it does not know.\<close>

lemma parseLogLevel_agree:
  "fst (parseLogLevel_forwarder raw) = parseLogLevel raw" "parseLogLevel_gateway raw = parseLogLevel raw"
  by (simp_all add: parseLogLevel_forwarder_def parseLogLevel_def parseLogLevel_gateway_def Let_def)

end
