(* ===== verification/Operator_Main.thy ===== *)
theory Operator_Main
  imports Controller_Props Process_Env
begin

text \<open>
  The operator program, \<open>cmd/main.go\<close>: the configuration it takes from its environment, the
  allocator it builds, how it restores the allocations of its predecessor, and the order in
  which \<open>main\<close> sets up the reconciler and the configuration server before it starts the manager
  of controller-runtime. That manager is outside the sources: its answers are arguments.
\<close>

section \<open>Configuration\<close>

record operator_config =
  oc_logLevel :: Level
  oc_grpcAddr :: string
  oc_forwarderServiceKey :: ObjectKey
  oc_forwarderVIP :: string
  oc_allocator :: PortAllocator

definition main_config :: "environment \<Rightarrow> operator_config" where
  "main_config env =
     \<lparr>oc_logLevel = parseLogLevel (env ''LOG_LEVEL''),
      oc_grpcAddr = (if env ''GRPC_ADDR'' = '''' then '':9090'' else env ''GRPC_ADDR''),
      oc_forwarderServiceKey = \<lparr>ok_Namespace = env ''POD_NAMESPACE'', ok_Name = env ''FORWARDER_SERVICE_NAME''\<rparr>,
      oc_forwarderVIP = TrimSpace (env ''LB_VIP''),
      oc_allocator = New (envInt32 env ''FORWARDER_PORT_RANGE_MIN'' 51820)
        (envInt32 env ''FORWARDER_PORT_RANGE_MAX'' 51919)\<rparr>"

text \<open>The label selector of the cache of pods: the client sees the pods that it selects only.\<close>

definition cached_pod_labels :: "(string, string) gomap" where
  "cached_pod_labels = [(''app.kubernetes.io/managed-by'', ''tunnel-operator'')]"

definition selects :: "(string, string) gomap \<Rightarrow> (string, string) gomap \<Rightarrow> bool" where
  "selects sel labels \<longleftrightarrow> list_all (\<lambda>(k, v). gm_get labels k = Some v) sel"

section \<open>loadExistingAllocations\<close>

definition load_tunnel :: "Tunnel \<Rightarrow> PortAllocator \<Rightarrow> PortAllocator" where
  "load_tunnel t a =
     (if ForwarderPort (t_Status t) \<le> 0 then a
      else LoadExisting (t_Namespace t @ ''/'' @ t_Name t) (ForwarderPort (t_Status t)) a)"

definition loadExistingAllocations :: "'w KubeClient \<Rightarrow> PortAllocator \<Rightarrow> 'w \<Rightarrow> PortAllocator \<times> 'w" where
  "loadExistingAllocations kubeClient a w =
     (case kListTunnels kubeClient w of
        (Inl err, w1) \<Rightarrow> (a, w1)
      | (Inr items, w1) \<Rightarrow> (fold load_tunnel items a, w1))"

section \<open>main\<close>

text \<open>
  What the calls to the manager return, \<^const>\<open>None\<close> for success. A failure of any of them makes
  the program exit with status 1.
\<close>

record mgr_answers =
  ma_NewManager :: "string option"
  ma_SetupWithManager :: "string option"
  ma_AddHealthzCheck :: "string option"
  ma_AddReadyzCheck :: "string option"
  ma_Add :: "string option"
  ma_Start :: "string option"

datatype main_error =
    UnableToCreateManager string
  | UnableToCreateController string
  | UnableToSetUpHealthCheck string
  | UnableToSetUpReadyCheck string
  | UnableToAddGrpcServer string
  | ProblemRunningManager string

text \<open>
  Lines 82 to 94: \<open>kc\<close> is the cached client of the manager and \<open>reader\<close> its API reader, which
  works before the caches are started. The allocator is shared by the reconciler and the
  configuration server.
\<close>

definition operator_setup ::
  "environment \<Rightarrow> 'w KubeClient \<Rightarrow> 'w KubeClient \<Rightarrow> (string \<Rightarrow> 'w \<Rightarrow> (string + http_response) \<times> 'w) \<Rightarrow> 'w \<Rightarrow>
   'w TunnelReconciler \<times> 'w operator" where
  "operator_setup env kc reader http w =
     (let cfg = main_config env
      in case loadExistingAllocations reader (oc_allocator cfg) w of
           (al, w1) \<Rightarrow>
             (\<lparr>Client = kc, ForwarderServiceKey = oc_forwarderServiceKey cfg, ForwarderVIP = oc_forwarderVIP cfg,
               FetchGatewayStatus = None, HttpGet = http, Getenv = env\<rparr>,
              \<lparr>op_World = w1, op_PortAllocator = Some al, op_ForwarderServer = Some NewForwarderServer,
               reconciliationsTotal = (\<lambda>_. 0), tunnelsActive = (\<lambda>_. 0), portAllocationsActive = 0\<rparr>))"

text \<open>
  The exit, and what the manager was started with: the reconciler, the state of the operator
  and the address of the configuration server.
\<close>

definition operator_main ::
  "environment \<Rightarrow> mgr_answers \<Rightarrow> 'w KubeClient \<Rightarrow> 'w KubeClient \<Rightarrow>
   (string \<Rightarrow> 'w \<Rightarrow> (string + http_response) \<times> 'w) \<Rightarrow> 'w \<Rightarrow>
   main_error option \<times> ('w TunnelReconciler \<times> 'w operator \<times> string) option" where
  "operator_main env answers kc reader http w =
     (case ma_NewManager answers of
        Some err \<Rightarrow> (Some (UnableToCreateManager err), None)
      | None \<Rightarrow>
          (case operator_setup env kc reader http w of
             (r, s) \<Rightarrow>
               (case ma_SetupWithManager answers of
                  Some err \<Rightarrow> (Some (UnableToCreateController err), None)
                | None \<Rightarrow>
                    (case ma_AddHealthzCheck answers of
                       Some err \<Rightarrow> (Some (UnableToSetUpHealthCheck err), None)
                     | None \<Rightarrow>
                         (case ma_AddReadyzCheck answers of
                            Some err \<Rightarrow> (Some (UnableToSetUpReadyCheck err), None)
                          | None \<Rightarrow>
                              (case ma_Add answers of
                                 Some err \<Rightarrow> (Some (UnableToAddGrpcServer err), None)
                               | None \<Rightarrow>
                                   (map_option ProblemRunningManager (ma_Start answers),
                                    Some (r, s, oc_grpcAddr (main_config env)))))))))"

section \<open>Lemmas\<close>

text \<open>The manager is started exactly when nothing before it failed, and then from the setup.\<close>

lemma operator_main_started:
  "operator_main env answers kc reader http w = (e, Some (r, s, addr)) \<longleftrightarrow>
     ma_NewManager answers = None \<and> ma_SetupWithManager answers = None \<and> ma_AddHealthzCheck answers = None \<and>
     ma_AddReadyzCheck answers = None \<and> ma_Add answers = None \<and>
     e = map_option ProblemRunningManager (ma_Start answers) \<and>
     operator_setup env kc reader http w = (r, s) \<and> addr = oc_grpcAddr (main_config env)"
  by (auto simp: operator_main_def split: option.split prod.split)

lemma operator_main_exits:
  "snd (operator_main env answers kc reader http w) = None \<Longrightarrow>
     \<exists>e. fst (operator_main env answers kc reader http w) = Some e"
  by (auto simp: operator_main_def split: option.splits prod.splits)

lemma operator_setup_allocator:
  assumes "operator_setup env kc reader http w = (r, s)"
  shows "\<exists>al. op_PortAllocator s = Some al \<and> fst (loadExistingAllocations reader (oc_allocator (main_config env)) w) = al"
    and "op_ForwarderServer s = Some NewForwarderServer" "Client r = kc"
    and "op_World s = snd (loadExistingAllocations reader (oc_allocator (main_config env)) w)"
  using assms by (auto simp: operator_setup_def Let_def split: prod.splits)

lemma envInt32_range: "in_int32 fallback \<Longrightarrow> in_int32 (envInt32 env key fallback)"
  by (simp add: envInt32_def Let_def split: option.split)

lemma envInt32_Itoa:
  assumes "in_int32 n" "env key = Itoa n"
  shows "envInt32 env key fallback = n"
  using assms ParseInt_Itoa [of 32 n] i32_id [of n]
  by (simp add: envInt32_def in_int32_def Let_def)

lemma main_allocator_inv: "alloc_inv (oc_allocator (main_config env))"
  unfolding main_config_def operator_config.simps
  by (rule New_inv) (rule envInt32_range; simp add: in_int32_def)+

lemma configured_allocator:
  assumes "env ''FORWARDER_PORT_RANGE_MIN'' = Itoa lo" "env ''FORWARDER_PORT_RANGE_MAX'' = Itoa hi"
    and "0 < lo" "lo \<le> hi" "in_int32 hi"
  shows "oc_allocator (main_config env) = New lo hi"
proof -
  have lo: "in_int32 lo" using assms(3-5) by (simp add: in_int32_def)
  show ?thesis
    using envInt32_Itoa [where env = env and key = "''FORWARDER_PORT_RANGE_MIN''", OF lo assms(1)]
      envInt32_Itoa [where env = env and key = "''FORWARDER_PORT_RANGE_MAX''", OF assms(5,2)]
    by (simp add: main_config_def)
qed

text \<open>The operator does not compare the range with the ports that UDP has.\<close>

lemma range_above_udp:
  assumes "env ''FORWARDER_PORT_RANGE_MIN'' = Itoa 70000" "env ''FORWARDER_PORT_RANGE_MAX'' = Itoa 70001"
  shows "\<exists>p. fst (Allocate 0 ''ns/b'' (oc_allocator (main_config env))) = Inr p \<and> 65535 < p"
proof -
  have "fst (Allocate 0 ''ns/b'' (New 70000 70001)) = Inr 70000" by code_simp
  then show ?thesis
    using configured_allocator [OF assms] by (simp add: in_int32_def)
qed

text \<open>The pods that the reconciler creates are among those that its client sees.\<close>

lemma gateway_pod_cached: "selects cached_pod_labels (gatewayLabels name)"
  by (simp add: selects_def cached_pod_labels_def gatewayLabels_def)

definition stored_ports :: "Tunnel list \<Rightarrow> (string \<times> int) list" where
  "stored_ports ts =
     map (\<lambda>t. (tunnelKey (t_Namespace t) (t_Name t), ForwarderPort (t_Status t)))
       (filter (\<lambda>t. 0 < ForwarderPort (t_Status t)) ts)"

lemma load_tunnels_fold: "fold load_tunnel ts a = fold (\<lambda>(k, p). LoadExisting k p) (stored_ports ts) a"
  by (induction ts arbitrary: a) (auto simp: load_tunnel_def stored_ports_def tunnelKey_def)

lemma stored_ports_mem:
  "(k, p) \<in> set (stored_ports ts) \<longleftrightarrow>
     (\<exists>t \<in> set ts. k = tunnelKey (t_Namespace t) (t_Name t) \<and> p = ForwarderPort (t_Status t) \<and> 0 < p)"
  by (auto simp: stored_ports_def)

lemma stored_ports_distinct:
  assumes "distinct (map (\<lambda>t. tunnelKey (t_Namespace t) (t_Name t)) ts)"
  shows "distinct (map fst (stored_ports ts))"
  using assms by (induction ts) (auto simp: stored_ports_def)

lemma ports_distinct:
  assumes "distinct (map fst kps)" "\<And>k k' p. (k, p) \<in> set kps \<Longrightarrow> (k', p) \<in> set kps \<Longrightarrow> k = k'"
  shows "distinct (map snd kps)"
  using assms
proof (induction kps)
  case (Cons kp kps)
  obtain k p where kp: "kp = (k, p)" by (cases kp)
  have "p \<notin> snd ` set kps"
  proof
    assume "p \<in> snd ` set kps"
    then obtain k' where "(k', p) \<in> set kps" by auto
    moreover from this have "k = k'" using Cons.prems(2) [of k p k'] kp by simp
    ultimately show False using Cons.prems(1) kp by (force simp: image_iff)
  qed
  moreover have "distinct (map snd kps)"
    by (rule Cons.IH) (use Cons.prems in \<open>auto intro: Cons.prems(2)\<close>)
  ultimately show ?case using kp by simp
qed simp

text \<open>What the new process has of the old one's ports.\<close>

lemma restored:
  assumes "kListTunnels reader w = (Inr ts, w')"
    and "alloc_inv old"
    and "minPort old = minPort (oc_allocator (main_config env))"
    and "maxPort old = maxPort (oc_allocator (main_config env))"
    and "distinct (map (\<lambda>t. tunnelKey (t_Namespace t) (t_Name t)) ts)"
    and "\<forall>t \<in> set ts. 0 < ForwarderPort (t_Status t) \<longrightarrow>
      GetPort old (tunnelKey (t_Namespace t) (t_Name t)) = Some (ForwarderPort (t_Status t))"
    and "loadExistingAllocations reader (oc_allocator (main_config env)) w = (new, w'')"
  shows "alloc_inv new" "w'' = w'"
    and "t \<in> set ts \<Longrightarrow> 0 < ForwarderPort (t_Status t) \<Longrightarrow>
      GetPort new (tunnelKey (t_Namespace t) (t_Name t)) = Some (ForwarderPort (t_Status t))"
    and "GetPort new k = Some p \<Longrightarrow> GetPort old k = Some p"
proof -
  let ?a = "oc_allocator (main_config env)" and ?kps = "stored_ports ts"
  have new: "new = fold (\<lambda>(k, p). LoadExisting k p) ?kps ?a" "w'' = w'"
    using assms(1,7) by (simp_all add: loadExistingAllocations_def load_tunnels_fold)
  have a: "alloc_inv ?a" by (rule main_allocator_inv)
  have empty: "GetPort ?a k = None" for k by (simp add: GetPort_eq main_config_def New_def Let_def)
  have old: "GetPort old k = Some p" if "(k, p) \<in> set ?kps" for k p
    using assms(6) that by (auto simp: stored_ports_mem)
  have d1: "distinct (map fst ?kps)" by (rule stored_ports_distinct [OF assms(5)])
  have d2: "distinct (map snd ?kps)"
    by (rule ports_distinct [OF d1]) (use old allocator.port_inj [OF assms(2)] in blast)
  have range: "\<forall>(k, p) \<in> set ?kps. minPort ?a \<le> p \<and> p \<le> maxPort ?a \<and> (\<forall>k'. GetPort ?a k' = Some p \<longrightarrow> k' = k)"
    using old allocator.port_range [OF assms(2)] assms(3,4) empty by fastforce
  have inv: "alloc_inv new" unfolding new by (rule allocator.load_list_inv [OF a])
  have mem: "(tunnelKey (t_Namespace t) (t_Name t), ForwarderPort (t_Status t)) \<in> set ?kps"
    if "t \<in> set ts" "0 < ForwarderPort (t_Status t)" for t
    using that by (auto simp: stored_ports_mem)
  have get: "GetPort new k = Some p" if "(k, p) \<in> set ?kps" for k p
    unfolding new by (rule allocator.load_list_ports [OF a d1 d2 range that])
  have "GetPort old k = Some p" if "GetPort new k = Some p" for k p
    using allocator.load_list_only [OF a that [unfolded new]] old empty by auto
  then show "GetPort new k = Some p \<Longrightarrow> GetPort old k = Some p" .
  show "alloc_inv new" "w'' = w'" by (rule inv, rule new(2))
  show "t \<in> set ts \<Longrightarrow> 0 < ForwarderPort (t_Status t) \<Longrightarrow>
      GetPort new (tunnelKey (t_Namespace t) (t_Name t)) = Some (ForwarderPort (t_Status t))"
    using get mem by blast
qed

text \<open>
  C12: A restarted operator continues with its predecessor's ports. Let \<open>old\<close> be the allocator
  of the previous process, with the port range of the environment, in which every stored port
  is recorded. Whatever the environment holds, if the manager is started then from an
  allocator with the allocator's invariant in which every tunnel with a stored port has
  exactly that port. It records nothing that the old one did not, a further request for a
  known tunnel is answered with the stored port, and a request for any other tunnel is never
  answered with a stored port.
\<close>

theorem restart_keeps_ports:
  assumes "kListTunnels reader w = (Inr ts, w')"
    and "alloc_inv old"
    and "minPort old = minPort (oc_allocator (main_config env))"
    and "maxPort old = maxPort (oc_allocator (main_config env))"
    and "distinct (map (\<lambda>t. tunnelKey (t_Namespace t) (t_Name t)) ts)"
    and "\<forall>t \<in> set ts. 0 < ForwarderPort (t_Status t) \<longrightarrow>
      GetPort old (tunnelKey (t_Namespace t) (t_Name t)) = Some (ForwarderPort (t_Status t))"
    and "operator_main env answers kc reader http w = (e, Some (r, s, addr))"
  shows "\<exists>new. op_PortAllocator s = Some new \<and> alloc_inv new \<and> op_World s = w' \<and>
    (\<forall>t \<in> set ts. 0 < ForwarderPort (t_Status t) \<longrightarrow>
       (\<forall>draw. Allocate draw (tunnelKey (t_Namespace t) (t_Name t)) new = (Inr (ForwarderPort (t_Status t)), new)) \<and>
       (\<forall>draw k p. k \<noteq> tunnelKey (t_Namespace t) (t_Name t) \<longrightarrow>
          fst (Allocate draw k new) = Inr p \<longrightarrow> p \<noteq> ForwarderPort (t_Status t))) \<and>
    (\<forall>k p. GetPort new k = Some p \<longrightarrow> GetPort old k = Some p)"
proof -
  have started: "operator_setup env kc reader http w = (r, s)" using assms(7) by (simp add: operator_main_started)
  obtain new w'' where load: "loadExistingAllocations reader (oc_allocator (main_config env)) w = (new, w'')" by force
  note res = restored [OF assms(1-6) load]
  have s: "op_PortAllocator s = Some new" "op_World s = w'"
    using operator_setup_allocator [OF started] load res(2) by simp_all
  show ?thesis
    using s res(1,4) allocator.alloc_known [OF res(1) res(3)] allocator.alloc_apart [OF res(1) res(3)] by blast
qed

definition ex_old :: PortAllocator where
  "ex_old = LoadExisting (tunnelKey ''team'' ''db'') 51820 (oc_allocator (main_config (\<lambda>_. '''')))"

definition ex_stored :: Tunnel where
  "ex_stored = sample_tunnel\<lparr>t_Namespace := ''team'', t_Name := ''db'',
     t_Status := sample_status\<lparr>ForwarderPort := 51820\<rparr>\<rparr>"

definition ex_mgr :: mgr_answers where
  "ex_mgr = \<lparr>ma_NewManager = None, ma_SetupWithManager = None, ma_AddHealthzCheck = None,
     ma_AddReadyzCheck = None, ma_Add = None, ma_Start = None\<rparr>"

abbreviation ex_main :: "main_error option \<times> (cluster TunnelReconciler \<times> cluster operator \<times> string) option" where
  "ex_main \<equiv> operator_main (\<lambda>_. '''') ex_mgr mem_client mem_client (\<lambda>url w. (Inl ''refused'', w)) (sample_cluster [ex_stored])"

theorem restart_keeps_ports_witness:
  "\<exists>e r s addr new. ex_main = (e, Some (r, s, addr)) \<and> op_PortAllocator s = Some new \<and> alloc_inv new \<and>
     fst (Allocate 5 (tunnelKey ''team'' ''db'') new) = Inr 51820"
proof -
  let ?w = "sample_cluster [ex_stored]" and ?e = "\<lambda>_::string. ''''::string"
  have l: "kListTunnels mem_client ?w = (Inr [ex_stored], ?w)"
    by (simp add: mem_defs sample_defs ex_stored_def)
  obtain r s where "operator_setup ?e mem_client mem_client (\<lambda>url w. (Inl ''refused'', w)) ?w = (r, s)" by force
  then have n: "ex_main = (None, Some (r, s, oc_grpcAddr (main_config ?e)))"
    by (simp add: operator_main_started ex_mgr_def)
  have i: "alloc_inv ex_old" unfolding ex_old_def by (rule LoadExisting_inv [OF main_allocator_inv])
  have b: "minPort ex_old = minPort (oc_allocator (main_config ?e))" "maxPort ex_old = maxPort (oc_allocator (main_config ?e))"
    by (simp_all add: ex_old_def)
  have t: "t_Namespace ex_stored = ''team''" "t_Name ex_stored = ''db''" "ForwarderPort (t_Status ex_stored) = 51820"
    by (simp_all add: ex_stored_def)
  have p: "GetPort ex_old (tunnelKey ''team'' ''db'') = Some 51820" by code_simp
  have d: "distinct (map (\<lambda>t. tunnelKey (t_Namespace t) (t_Name t)) [ex_stored])" by simp
  have "\<forall>t \<in> set [ex_stored]. 0 < ForwarderPort (t_Status t) \<longrightarrow>
      GetPort ex_old (tunnelKey (t_Namespace t) (t_Name t)) = Some (ForwarderPort (t_Status t))"
    using p by (simp add: t)
  from restart_keeps_ports [OF l i b d this n] obtain new where
    "op_PortAllocator s = Some new" "alloc_inv new" "fst (Allocate 5 (tunnelKey ''team'' ''db'') new) = Inr 51820"
    by (auto simp: t)
  with n show ?thesis by blast
qed

end
