(* ===== verification/Session_Map.thy ===== *)
theory Session_Map
  imports Prelude
begin

text \<open>
  The sessions of a forwarded port, \<open>pkg/forwarder/session.go\<close>. A \<open>*Session\<close> is shared between
  the map, the goroutine that serves the port and the goroutine that pipes the responses: it
  is an address into a store of sessions. Times are nanoseconds. Each method holds the map's
  lock for its whole body and is one atomic operation.
\<close>

section \<open>Sessions\<close>

text \<open>\<open>upstreamConn\<close> is the socket to the gateway; what matters of it is whether it is open.\<close>

record Session =
  clientAddr :: string
  upstreamOpen :: bool
  lastActivity :: int

type_synonym session_store = "nat \<rightharpoonup> Session"

definition NewSession :: "string \<Rightarrow> int \<Rightarrow> Session" where
  "NewSession client now = \<lparr>clientAddr = client, upstreamOpen = True, lastActivity = now\<rparr>"

definition Touch :: "nat \<Rightarrow> int \<Rightarrow> session_store \<Rightarrow> session_store" where
  "Touch r now h = h(r := map_option (\<lambda>s. s\<lparr>lastActivity := now\<rparr>) (h r))"

definition LastActivity :: "session_store \<Rightarrow> nat \<Rightarrow> int" where
  "LastActivity h r = (case h r of Some s \<Rightarrow> lastActivity s | None \<Rightarrow> 0)"

text \<open>\<open>upstreamConn.Close()\<close>; closing a closed connection is an error that the code ignores.\<close>

definition closeUpstream :: "nat \<Rightarrow> session_store \<Rightarrow> session_store" where
  "closeUpstream r h = h(r := map_option (\<lambda>s. s\<lparr>upstreamOpen := False\<rparr>) (h r))"

section \<open>The map\<close>

type_synonym SessionMap = "(string, nat) gomap"

definition NewSessionMap :: SessionMap where "NewSessionMap = []"

definition Get :: "SessionMap \<Rightarrow> string \<Rightarrow> nat option" where "Get m key = gm_get m key"

definition Set :: "string \<Rightarrow> nat \<Rightarrow> SessionMap \<Rightarrow> SessionMap" where "Set key r m = gm_set key r m"

definition Delete :: "string \<Rightarrow> SessionMap \<Rightarrow> SessionMap" where "Delete key m = gm_del key m"

text \<open>The loop of \<open>CleanupIdle\<close>; its first argument is the part of the map still to visit.\<close>

fun cleanup_loop ::
  "SessionMap \<Rightarrow> int \<Rightarrow> SessionMap \<times> session_store \<Rightarrow> SessionMap \<times> session_store" where
  "cleanup_loop [] cutoff (m, h) = (m, h)"
| "cleanup_loop ((key, r) # rest) cutoff (m, h) =
     (if LastActivity h r > cutoff then cleanup_loop rest cutoff (m, h)
      else cleanup_loop rest cutoff (gm_del key m, closeUpstream r h))"

definition CleanupIdle ::
  "int \<Rightarrow> int \<Rightarrow> SessionMap \<times> session_store \<Rightarrow> SessionMap \<times> session_store" where
  "CleanupIdle now timeout mh = cleanup_loop (fst mh) (now - timeout) mh"

fun close_loop :: "SessionMap \<Rightarrow> SessionMap \<times> session_store \<Rightarrow> SessionMap \<times> session_store" where
  "close_loop [] (m, h) = (m, h)"
| "close_loop ((key, r) # rest) (m, h) = close_loop rest (gm_del key m, closeUpstream r h)"

definition CloseAll :: "SessionMap \<times> session_store \<Rightarrow> SessionMap \<times> session_store" where
  "CloseAll mh = close_loop (fst mh) mh"

section \<open>Contract\<close>

text \<open>Closing a set of sessions at once: what the two loops come to.\<close>

definition close_set :: "nat set \<Rightarrow> session_store \<Rightarrow> session_store" where
  "close_set R h = (\<lambda>r. if r \<in> R then map_option (\<lambda>s. s\<lparr>upstreamOpen := False\<rparr>) (h r) else h r)"

lemma close_set_simps [simp]:
  "close_set {} h = h"
  "LastActivity (close_set R h) = LastActivity h"
  "dom (close_set R h) = dom h"
  "close_set R h r = None \<longleftrightarrow> h r = None"
  by (auto simp: close_set_def LastActivity_def fun_eq_iff dom_def split: option.split)

lemma close_set_insert: "close_set R (closeUpstream r h) = close_set (insert r R) h"
  by (auto simp: close_set_def closeUpstream_def fun_eq_iff option.map_comp comp_def
      intro!: option.map_cong)

lemma closeUpstream_set: "closeUpstream r h = close_set {r} h"
  by (auto simp: close_set_def closeUpstream_def)

lemma LastActivity_close [simp]: "LastActivity (closeUpstream r h) = LastActivity h"
  by (simp add: closeUpstream_set)

text \<open>
  What the port's goroutines rely on: lookups after every operation, and which sessions the
  two bulk operations close.
\<close>

locale session_table =
  fixes lookup :: "'m \<Rightarrow> string \<Rightarrow> nat option"
    and ok :: "'m \<Rightarrow> bool"
    and empty :: 'm
    and put :: "string \<Rightarrow> nat \<Rightarrow> 'm \<Rightarrow> 'm"
    and del :: "string \<Rightarrow> 'm \<Rightarrow> 'm"
    and expire :: "int \<Rightarrow> int \<Rightarrow> 'm \<times> session_store \<Rightarrow> 'm \<times> session_store"
    and drop_all :: "'m \<times> session_store \<Rightarrow> 'm \<times> session_store"
  assumes ok_empty: "ok empty" and lookup_empty: "lookup empty k = None"
    and ok_put: "ok m \<Longrightarrow> ok (put k r m)" and lookup_put: "lookup (put k r m) = (lookup m)(k \<mapsto> r)"
    and ok_del: "ok m \<Longrightarrow> ok (del k m)" and lookup_del: "lookup (del k m) = (lookup m)(k := None)"
    and ok_expire: "ok m \<Longrightarrow> ok (fst (expire now timeout (m, h)))"
    and lookup_expire: "ok m \<Longrightarrow> lookup (fst (expire now timeout (m, h))) k =
      (case lookup m k of
         None \<Rightarrow> None
       | Some r \<Rightarrow> if LastActivity h r > now - timeout then Some r else None)"
    and close_expire: "ok m \<Longrightarrow> snd (expire now timeout (m, h)) =
      close_set {r. (\<exists>k. lookup m k = Some r) \<and> \<not> LastActivity h r > now - timeout} h"
    and lookup_drop: "ok m \<Longrightarrow> lookup (fst (drop_all (m, h))) k = None"
    and ok_drop: "ok m \<Longrightarrow> ok (fst (drop_all (m, h)))"
    and close_drop: "ok m \<Longrightarrow> snd (drop_all (m, h)) = close_set {r. \<exists>k. lookup m k = Some r} h"
begin

text \<open>A session is in the table and closed only if something else closed it.\<close>

lemma expire_keeps_fresh:
  assumes "ok m" "lookup m k = Some r" "LastActivity h r > now - timeout"
  shows "lookup (fst (expire now timeout (m, h))) k = Some r"
    and "snd (expire now timeout (m, h)) r = h r"
  using assms by (simp_all add: lookup_expire close_expire close_set_def)

lemma expire_sub:
  assumes "ok m" "lookup (fst (expire now timeout (m, h))) k = Some r"
  shows "lookup m k = Some r" and "LastActivity h r > now - timeout"
  using assms by (auto simp: lookup_expire split: option.splits if_splits)

text \<open>Expiring again at the same time changes nothing.\<close>

lemma expire_idem:
  assumes "ok m" "expire now timeout (m, h) = (m', h')"
  shows "lookup (fst (expire now timeout (m', h'))) = lookup m'"
    and "snd (expire now timeout (m', h')) = h'"
proof -
  have m': "ok m'" "m' = fst (expire now timeout (m, h))" "h' = snd (expire now timeout (m, h))"
    using assms ok_expire [of m now timeout h] by simp_all
  have la: "LastActivity h' = LastActivity h" using m'(3) close_expire [OF assms(1)] by simp
  have fresh: "LastActivity h' r > now - timeout" if "lookup m' k = Some r" for k r
    using expire_sub(2) [OF assms(1)] that m'(2) la by simp
  show "lookup (fst (expire now timeout (m', h'))) = lookup m'"
  proof
    fix k show "lookup (fst (expire now timeout (m', h'))) k = lookup m' k"
      using fresh [of k] by (simp add: lookup_expire [OF m'(1)] split: option.split)
  qed
  have none: "{r. (\<exists>k. lookup m' k = Some r) \<and> \<not> LastActivity h' r > now - timeout} = {}"
    using fresh by blast
  show "snd (expire now timeout (m', h')) = h'"
    unfolding close_expire [OF m'(1)] none by simp
qed

end

section \<open>The session map meets the contract\<close>

lemma cleanup_loop_get:
  "gm_get (fst (cleanup_loop rest cutoff (m, h))) k =
     (if \<exists>r. (k, r) \<in> set rest \<and> \<not> LastActivity h r > cutoff then None else gm_get m k)"
  by (induction rest arbitrary: m h) auto

lemma cleanup_loop_close:
  "snd (cleanup_loop rest cutoff (m, h)) =
     close_set {r. (\<exists>k. (k, r) \<in> set rest) \<and> \<not> LastActivity h r > cutoff} h"
proof (induction rest arbitrary: m h)
  case (Cons kr rest)
  obtain k r where kr: "kr = (k, r)" by (cases kr)
  let ?D = "\<lambda>xs. {r'. (\<exists>k. (k, r') \<in> set xs) \<and> \<not> LastActivity h r' > cutoff}"
  have "?D (kr # rest) = (if LastActivity h r > cutoff then ?D rest else insert r (?D rest))"
    using kr by auto
  with Cons kr show ?case by (simp add: close_set_insert)
qed simp

lemma cleanup_loop_ok: "gm_ok m \<Longrightarrow> gm_ok (fst (cleanup_loop rest cutoff (m, h)))"
  by (induction rest arbitrary: m h) auto

lemmas cleanup_loop_eq = cleanup_loop_get cleanup_loop_close cleanup_loop_ok

lemma close_loop_eq:
  "gm_get (fst (close_loop rest (m, h))) k =
     (if k \<in> fst ` set rest then None else gm_get m k)"
  "snd (close_loop rest (m, h)) = close_set (snd ` set rest) h"
  "gm_ok m \<Longrightarrow> gm_ok (fst (close_loop rest (m, h)))"
  by (induction rest "(m, h)" arbitrary: m h rule: close_loop.induct)
     (auto simp: close_set_insert)

lemma gm_mem_iff: "gm_ok m \<Longrightarrow> (k, v) \<in> set m \<longleftrightarrow> gm_get m k = Some v"
  by (simp add: map_of_eq_Some_iff)

interpretation sessions: session_table Get gm_ok NewSessionMap Set Delete CleanupIdle CloseAll
proof (unfold_locales, goal_cases)
  case (7 m now timeout h)
  then show ?case unfolding CleanupIdle_def by (rule cleanup_loop_ok)
next
  case (8 m now timeout h k)
  have "gm_get (fst (CleanupIdle now timeout (m, h))) k =
      (if \<exists>r. gm_get m k = Some r \<and> \<not> LastActivity h r > now - timeout then None else gm_get m k)"
    by (simp only: CleanupIdle_def fst_conv cleanup_loop_get gm_mem_iff [OF 8])
  then show ?case by (cases "gm_get m k") (simp_all add: Get_def)
next
  case (9 m now timeout h)
  show ?case
    by (simp only: CleanupIdle_def Get_def fst_conv cleanup_loop_close gm_mem_iff [OF 9])
next
  case (10 m h k)
  then show ?case
    by (simp add: CloseAll_def Get_def close_loop_eq(1))
       (metis gm_keys_iff image_set)
next
  case (11 m h)
  then show ?case unfolding CloseAll_def by (rule close_loop_eq(3))
next
  case (12 m h)
  then have "snd ` set m = {r. \<exists>k. gm_get m k = Some r}" by (force simp: gm_mem_iff [symmetric])
  then show ?case by (simp add: CloseAll_def Get_def close_loop_eq(2))
qed (simp_all add: NewSessionMap_def Get_def Set_def Delete_def fun_eq_iff)

text \<open>
  C25: \<open>CleanupIdle\<close> removes and closes exactly the sessions without activity in the last
  \<open>timeout\<close>: a session whose last activity is later than the cut-off keeps its entry and its
  connection, every other entry of the map is gone and its connection is closed, and no
  session outside the map is touched.
\<close>

lemma CleanupIdle_correct:
  assumes "gm_ok m" and "CleanupIdle now timeout (m, h) = (m', h')"
  shows "gm_ok m' \<and>
    (\<forall>k. Get m' k = (case Get m k of
        None \<Rightarrow> None | Some r \<Rightarrow> if LastActivity h r > now - timeout then Some r else None)) \<and>
    (\<forall>r s. h r = Some s \<longrightarrow> h' r = Some (if (\<exists>k. Get m k = Some r) \<and> lastActivity s \<le> now - timeout
        then s\<lparr>upstreamOpen := False\<rparr> else s))"
proof -
  have eq: "m' = fst (CleanupIdle now timeout (m, h))" "h' = snd (CleanupIdle now timeout (m, h))"
    using assms(2) by simp_all
  show ?thesis
    unfolding eq sessions.close_expire [OF assms(1)]
    using sessions.ok_expire [OF assms(1)] sessions.lookup_expire [OF assms(1)]
    by (auto simp: close_set_def LastActivity_def not_less)
qed

lemma CleanupIdle_correct_witness:
  "\<exists>m' h'. CleanupIdle 100 40 ([(''c1'', 0), (''c2'', 1)],
      [0 \<mapsto> NewSession ''c1'' 60, 1 \<mapsto> NewSession ''c2'' 61]) = (m', h') \<and>
    gm_ok m' \<and> Get m' ''c1'' = None \<and> Get m' ''c2'' = Some 1 \<and>
    h' 0 = Some ((NewSession ''c1'' 60)\<lparr>upstreamOpen := False\<rparr>)"
proof -
  let ?m = "[(''c1'', 0), (''c2'', 1)]" and ?h = "[0 \<mapsto> NewSession ''c1'' 60, 1 \<mapsto> NewSession ''c2'' 61]"
  obtain m' h' where e: "CleanupIdle 100 40 (?m, ?h) = (m', h')" by force
  have "gm_ok ?m" by simp
  note c = CleanupIdle_correct [OF this e]
  have la: "LastActivity ?h 0 = 60" "LastActivity ?h 1 = 61" by (simp_all add: LastActivity_def NewSession_def)
  have get: "Get ?m ''c1'' = Some 0" "Get ?m ''c2'' = Some 1" by (simp_all add: Get_def)
  have "Get m' ''c1'' = None" "Get m' ''c2'' = Some 1"
    using c [THEN conjunct2, THEN conjunct1, THEN spec, of "''c1''"]
      c [THEN conjunct2, THEN conjunct1, THEN spec, of "''c2''"]
    unfolding get by (simp_all add: la [simplified])
  moreover have "h' 0 = Some ((NewSession ''c1'' 60)\<lparr>upstreamOpen := False\<rparr>)"
    using c [THEN conjunct2, THEN conjunct2, THEN spec, THEN spec, of 0 "NewSession ''c1'' 60"] get(1)
    by (auto simp: NewSession_def)
  ultimately show ?thesis using e c by blast
qed

end
