(* ===== verification/Udp_Proxy.thy ===== *)
theory Udp_Proxy
  imports Proto Session_Map
begin

text \<open>
  The forwarder's table of port mappings, \<open>pkg/forwarder/proxy.go\<close> up to \<open>SetVIP\<close>: listeners
  are objects behind pointers, their sockets are open or closed, and the operating system may
  refuse a port. The specification is a table from ports to routes; the operations implement
  it, and the sockets that are open are those of the table.
\<close>

section \<open>State\<close>

definition udpBufferSize :: nat where "udpBufferSize = 65535"

text \<open>
  \<open>conn\<close> is a bound socket: its local port and whether it is open. \<open>cancel\<close> cancels the context
  of the listener's goroutines.
\<close>

record portListener =
  pl_port :: int
  pl_connOpen :: bool
  pl_gateway :: string
  pl_revision :: int
  pl_tunnelName :: string
  pl_tunnelNamespace :: string
  pl_sessions :: SessionMap
  pl_cancelled :: bool

text \<open>
  \<open>mappings\<close> holds pointers: addresses of the objects in \<open>px_listeners\<close>, of which
  \<open>nextListener\<close> is the next fresh one. \<open>px_sessions\<close> is the store of the session objects,
  \<open>px_calls\<close> counts the calls of \<open>net.ListenUDP\<close>.
\<close>

record UDPProxy =
  mappings :: "(int, nat) gomap"
  idleTimeout :: int
  px_vip :: string
  px_listeners :: "(nat, portListener) gomap"
  px_sessions :: session_store
  px_calls :: nat
  nextListener :: nat

definition NewUDPProxy :: "int \<Rightarrow> UDPProxy" where
  "NewUDPProxy timeout = \<lparr>mappings = [], idleTimeout = timeout, px_vip = '''', px_listeners = [],
     px_sessions = Map.empty, px_calls = 0, nextListener = 0\<rparr>"

datatype proxy_error =
    InvalidTunnelMapping
  | ListenFailed int
  | MappingExists int
  | ApplyFailed int proxy_error

section \<open>Sockets\<close>

definition port_bound :: "UDPProxy \<Rightarrow> int \<Rightarrow> bool" where
  "port_bound p q \<longleftrightarrow> list_ex (\<lambda>(r, l). pl_connOpen l \<and> pl_port l = q) (px_listeners p)"

text \<open>
  \<open>net.ListenUDP\<close>: \<open>os\<close> is what the operating system answers to the n-th call, a local port
  or a refusal. A port outside 16 bits is refused, a port other than 0 is bound as asked for,
  and a port this process has bound is not bound again.
\<close>

definition ListenUDP :: "(nat \<Rightarrow> int \<Rightarrow> int option) \<Rightarrow> int \<Rightarrow> UDPProxy \<Rightarrow> int option \<times> UDPProxy" where
  "ListenUDP os port p =
     (let answer =
        (if port < 0 \<or> 65535 < port then None
         else case os (px_calls p) port of
             None \<Rightarrow> None
           | Some q \<Rightarrow> if port \<noteq> 0 \<and> q \<noteq> port \<or> port_bound p q then None else Some q)
      in (answer, p\<lparr>px_calls := px_calls p + 1\<rparr>))"

section \<open>Operations\<close>

definition lookup_listener :: "UDPProxy \<Rightarrow> int \<Rightarrow> (nat \<times> portListener) option" where
  "lookup_listener p port =
     (case gm_get (mappings p) port of
        None \<Rightarrow> None
      | Some r \<Rightarrow> map_option (Pair r) (gm_get (px_listeners p) r))"

definition RemoveMapping :: "int \<Rightarrow> UDPProxy \<Rightarrow> UDPProxy" where
  "RemoveMapping port p =
     (case lookup_listener p port of
        None \<Rightarrow> p
      | Some (r, pl) \<Rightarrow>
          (case CloseAll (pl_sessions pl, px_sessions p) of
             (m, h) \<Rightarrow>
               p\<lparr>mappings := gm_del port (mappings p),
                 px_listeners := gm_set r (pl\<lparr>pl_cancelled := True, pl_connOpen := False,
                   pl_sessions := m\<rparr>) (px_listeners p),
                 px_sessions := h\<rparr>))"

text \<open>The tail of \<open>addMapping\<close>: listen, and enter the new listener unless the port is taken.\<close>

definition openMapping ::
  "(nat \<Rightarrow> int \<Rightarrow> int option) \<Rightarrow> int \<Rightarrow> string \<Rightarrow> string \<Rightarrow> string \<Rightarrow> int \<Rightarrow> UDPProxy \<Rightarrow>
   (proxy_error + unit) \<times> UDPProxy" where
  "openMapping os port gatewayAddr tunnelName tunnelNamespace revision p =
     (case ListenUDP os port p of
        (None, p1) \<Rightarrow> (Inl (ListenFailed port), p1)
      | (Some q, p1) \<Rightarrow>
          (let pl = \<lparr>pl_port = q, pl_connOpen = True, pl_gateway = gatewayAddr,
                     pl_revision = revision, pl_tunnelName = tunnelName,
                     pl_tunnelNamespace = tunnelNamespace, pl_sessions = NewSessionMap,
                     pl_cancelled = False\<rparr>;
               r = nextListener p1;
               enter = (\<lambda>l. p1\<lparr>px_listeners := gm_set r l (px_listeners p1), nextListener := Suc r\<rparr>)
           in if gm_get (mappings p1) port \<noteq> None
              then (Inl (MappingExists port), enter (pl\<lparr>pl_cancelled := True, pl_connOpen := False\<rparr>))
              else (Inr (), (enter pl)\<lparr>mappings := gm_set port r (mappings p1)\<rparr>)))"

text \<open>
  The calls of \<open>addMapping\<close> come from one goroutine at a time, so that the mapping read under
  the read lock is still the current one under the write lock.
\<close>

definition addMapping ::
  "(nat \<Rightarrow> int \<Rightarrow> int option) \<Rightarrow> int \<Rightarrow> string \<Rightarrow> string \<Rightarrow> string \<Rightarrow> int \<Rightarrow> UDPProxy \<Rightarrow>
   (proxy_error + unit) \<times> UDPProxy" where
  "addMapping os port gatewayAddr tunnelName tunnelNamespace revision p =
     (case lookup_listener p port of
        Some (r, existing) \<Rightarrow>
          (let sameTunnel = (pl_tunnelName existing = tunnelName \<and>
                             pl_tunnelNamespace existing = tunnelNamespace)
           in if sameTunnel \<and> pl_revision existing > revision then (Inr (), p)
              else if sameTunnel \<and> pl_gateway existing = gatewayAddr then
                (Inr (), if pl_revision existing < revision
                         then p\<lparr>px_listeners := gm_set r (existing\<lparr>pl_revision := revision\<rparr>) (px_listeners p)\<rparr>
                         else p)
              else openMapping os port gatewayAddr tunnelName tunnelNamespace revision
                     (RemoveMapping port p))
      | None \<Rightarrow> openMapping os port gatewayAddr tunnelName tunnelNamespace revision p)"

definition AddMapping ::
  "(nat \<Rightarrow> int \<Rightarrow> int option) \<Rightarrow> int \<Rightarrow> string \<Rightarrow> string \<Rightarrow> string \<Rightarrow> UDPProxy \<Rightarrow>
   (proxy_error + unit) \<times> UDPProxy" where
  "AddMapping os port gatewayAddr tunnelName tunnelNamespace p =
     addMapping os port gatewayAddr tunnelName tunnelNamespace 0 p"

definition invalid_mapping :: "TunnelMapping option \<Rightarrow> bool" where
  "invalid_mapping m \<longleftrightarrow> m = None \<or> GetForwarderPort m \<le> 0 \<or> GetGatewayAddress m = ''''"

definition ApplyMapping ::
  "(nat \<Rightarrow> int \<Rightarrow> int option) \<Rightarrow> TunnelMapping option \<Rightarrow> UDPProxy \<Rightarrow> (proxy_error + unit) \<times> UDPProxy" where
  "ApplyMapping os m p =
     (if invalid_mapping m then (Inl InvalidTunnelMapping, p)
      else addMapping os (GetForwarderPort m) (GetGatewayAddress m) (GetTunnelName m)
             (GetTunnelNamespace m) (GetRevision m) p)"

definition Ports :: "UDPProxy \<Rightarrow> int list" where "Ports p = gm_keys (mappings p)"

text \<open>The body of the first loop of \<open>ReconcileMappings\<close>.\<close>

definition reconcile_one ::
  "(nat \<Rightarrow> int \<Rightarrow> int option) \<Rightarrow> TunnelMapping option \<Rightarrow> UDPProxy \<Rightarrow> (proxy_error + unit) \<times> UDPProxy" where
  "reconcile_one os m p =
     (if invalid_mapping m then (Inr (), p)
      else case ApplyMapping os m p of
          (Inl e, p1) \<Rightarrow> (Inl (ApplyFailed (GetForwarderPort m) e), p1)
        | (Inr _, p1) \<Rightarrow> (Inr (), p1))"

text \<open>\<open>desired\<close> is read only when the first loop has gone through all mappings.\<close>

definition desired_ports :: "TunnelMapping option list \<Rightarrow> int list" where
  "desired_ports ms = map GetForwarderPort (filter (\<lambda>m. \<not> invalid_mapping m) ms)"

definition ReconcileMappings ::
  "(nat \<Rightarrow> int \<Rightarrow> int option) \<Rightarrow> TunnelMapping option list \<Rightarrow> UDPProxy \<Rightarrow> (proxy_error + unit) \<times> UDPProxy" where
  "ReconcileMappings os ms p =
     (case for_each (reconcile_one os) ms p of
        (Inl e, p1) \<Rightarrow> (Inl e, p1)
      | (Inr _, p1) \<Rightarrow>
          (Inr (), fold (\<lambda>port p. if port \<in> set (desired_ports ms) then p else RemoveMapping port p)
                     (Ports p1) p1))"

definition Close :: "UDPProxy \<Rightarrow> UDPProxy" where
  "Close p = fold RemoveMapping (Ports p) p"

text \<open>The argument is \<open>ctx.Err()\<close>.\<close>

definition Stop :: "string option \<Rightarrow> UDPProxy \<Rightarrow> string option \<times> UDPProxy" where
  "Stop ctxErr p = (case ctxErr of Some e \<Rightarrow> (Some e, p) | None \<Rightarrow> (None, Close p))"

definition SetVIP :: "string \<Rightarrow> UDPProxy \<Rightarrow> UDPProxy" where
  "SetVIP v p = p\<lparr>px_vip := v\<rparr>"

section \<open>Specification: a table of routes\<close>

record route =
  rt_gateway :: string
  rt_revision :: int
  rt_tunnelName :: string
  rt_tunnelNamespace :: string

definition mapping_route :: "TunnelMapping option \<Rightarrow> route" where
  "mapping_route m = \<lparr>rt_gateway = GetGatewayAddress m, rt_revision = GetRevision m,
     rt_tunnelName = GetTunnelName m, rt_tunnelNamespace = GetTunnelNamespace m\<rparr>"

text \<open>A new route replaces the old one unless it is an older revision of the same tunnel.\<close>

definition same_tunnel :: "route \<Rightarrow> route \<Rightarrow> bool" where
  "same_tunnel a b \<longleftrightarrow> rt_tunnelName a = rt_tunnelName b \<and> rt_tunnelNamespace a = rt_tunnelNamespace b"

definition newer :: "route \<Rightarrow> route option \<Rightarrow> route" where
  "newer new old =
     (case old of
        None \<Rightarrow> new
      | Some o' \<Rightarrow> if same_tunnel o' new \<and> rt_revision o' > rt_revision new then o' else new)"

definition upsert :: "int \<Rightarrow> route \<Rightarrow> (int \<rightharpoonup> route) \<Rightarrow> (int \<rightharpoonup> route)" where
  "upsert port new T = T(port \<mapsto> newer new (T port))"

text \<open>The table that a proxy implements.\<close>

definition listener_route :: "portListener \<Rightarrow> route" where
  "listener_route l = \<lparr>rt_gateway = pl_gateway l, rt_revision = pl_revision l,
     rt_tunnelName = pl_tunnelName l, rt_tunnelNamespace = pl_tunnelNamespace l\<rparr>"

definition routes :: "UDPProxy \<Rightarrow> int \<rightharpoonup> route" where
  "routes p port = map_option (listener_route \<circ> snd) (lookup_listener p port)"

section \<open>Invariant\<close>

text \<open>
  The pointers of the table and the objects they point to: every entry has an open listener
  of its own bound to its port, every other listener is closed, cancelled and without
  sessions, and no two open sockets have one port.
\<close>

definition table_inv :: "(int \<rightharpoonup> nat) \<Rightarrow> (nat \<rightharpoonup> portListener) \<Rightarrow> nat \<Rightarrow> bool" where
  "table_inv M L n \<longleftrightarrow>
     (\<forall>r l. L r = Some l \<longrightarrow> r < n \<and> gm_ok (pl_sessions l) \<and>
        (if pl_connOpen l then \<not> pl_cancelled l \<and> (\<exists>port. M port = Some r)
         else pl_cancelled l \<and> pl_sessions l = [])) \<and>
     (\<forall>port r. M port = Some r \<longrightarrow>
        (\<exists>l. L r = Some l \<and> pl_connOpen l \<and> (port = 0 \<or> pl_port l = port))) \<and>
     (\<forall>port port' r. M port = Some r \<longrightarrow> M port' = Some r \<longrightarrow> port = port') \<and>
     (\<forall>r r' l l'. L r = Some l \<longrightarrow> L r' = Some l' \<longrightarrow> pl_connOpen l \<longrightarrow> pl_connOpen l' \<longrightarrow>
        pl_port l = pl_port l' \<longrightarrow> r = r')"

definition proxy_inv :: "UDPProxy \<Rightarrow> bool" where
  "proxy_inv p \<longleftrightarrow> gm_ok (mappings p) \<and> gm_ok (px_listeners p) \<and>
     table_inv (gm_get (mappings p)) (gm_get (px_listeners p)) (nextListener p)"

lemma table_invD:
  assumes "table_inv M L n"
  shows "L r = Some l \<Longrightarrow> r < n" and "L r = Some l \<Longrightarrow> gm_ok (pl_sessions l)"
    and "L r = Some l \<Longrightarrow> pl_connOpen l \<Longrightarrow> \<not> pl_cancelled l \<and> (\<exists>port. M port = Some r)"
    and "L r = Some l \<Longrightarrow> \<not> pl_connOpen l \<Longrightarrow> pl_cancelled l \<and> pl_sessions l = []"
    and "M port = Some r \<Longrightarrow> \<exists>l. L r = Some l \<and> pl_connOpen l \<and> (port = 0 \<or> pl_port l = port)"
    and "M port = Some r \<Longrightarrow> M port' = Some r \<Longrightarrow> port = port'"
    and "L r = Some l \<Longrightarrow> L r' = Some l' \<Longrightarrow> pl_connOpen l \<Longrightarrow> pl_connOpen l' \<Longrightarrow>
      pl_port l = pl_port l' \<Longrightarrow> r = r'"
  using assms unfolding table_inv_def by (meson, meson, meson, meson, meson, meson, meson)

lemma table_invI:
  assumes "\<And>r l. L r = Some l \<Longrightarrow> r < n \<and> gm_ok (pl_sessions l)"
    and "\<And>r l. L r = Some l \<Longrightarrow> pl_connOpen l \<Longrightarrow> \<not> pl_cancelled l \<and> (\<exists>port. M port = Some r)"
    and "\<And>r l. L r = Some l \<Longrightarrow> \<not> pl_connOpen l \<Longrightarrow> pl_cancelled l \<and> pl_sessions l = []"
    and "\<And>port r. M port = Some r \<Longrightarrow> \<exists>l. L r = Some l \<and> pl_connOpen l \<and> (port = 0 \<or> pl_port l = port)"
    and "\<And>port port' r. M port = Some r \<Longrightarrow> M port' = Some r \<Longrightarrow> port = port'"
    and "\<And>r r' l l'. L r = Some l \<Longrightarrow> L r' = Some l' \<Longrightarrow> pl_connOpen l \<Longrightarrow> pl_connOpen l' \<Longrightarrow>
      pl_port l = pl_port l' \<Longrightarrow> r = r'"
  shows "table_inv M L n"
  using assms unfolding table_inv_def by presburger

lemma table_inv_remove:
  assumes "table_inv M L n" "M port = Some r" "\<not> pl_connOpen l'" "pl_cancelled l'" "pl_sessions l' = []"
  shows "table_inv (M(port := None)) (L(r \<mapsto> l')) n"
proof -
  note inv = table_invD [OF assms(1)]
  have r: "r < n" using inv(5) [OF assms(2)] inv(1) by auto
  have other: "\<exists>port'. (M(port := None)) port' = Some q" if "M p' = Some q" "q \<noteq> r" for p' q
    using that assms(2) by (intro exI [of _ p']) auto
  show ?thesis
  proof (rule table_invI, goal_cases)
    case (1 q l)
    then show ?case using inv(1,2) [of q l] r assms(5) by (auto split: if_splits)
  next
    case (2 q l)
    then have q: "q \<noteq> r" "L q = Some l" using assms(3) by (auto split: if_splits)
    then obtain p' where "M p' = Some q" using inv(3) 2(2) by blast
    then show ?case using inv(3) [OF q(2) 2(2)] other q(1) by blast
  next
    case (3 q l)
    then show ?case using inv(4) [of q l] assms(4,5) by (auto split: if_splits)
  next
    case (4 p' q)
    then have "M p' = Some q" "p' \<noteq> port" by (auto split: if_splits)
    then have "q \<noteq> r" using inv(6) [OF assms(2), of p'] by auto
    then show ?case using inv(5) [OF \<open>M p' = Some q\<close>] by simp
  next
    case (5 p1 p2 q)
    then show ?case using inv(6) [of p1 q p2] by (auto split: if_splits)
  next
    case (6 q q' l l1)
    then show ?case using inv(7) [of q l q' l1] assms(3) by (auto split: if_splits)
  qed
qed

lemma table_inv_enter:
  assumes "table_inv M L n" "M port = None" "pl_connOpen l'" "\<not> pl_cancelled l'" "pl_sessions l' = []"
    and "port = 0 \<or> pl_port l' = port" "\<And>r l. L r = Some l \<Longrightarrow> pl_connOpen l \<Longrightarrow> pl_port l \<noteq> pl_port l'"
  shows "table_inv (M(port \<mapsto> n)) (L(n \<mapsto> l')) (Suc n)"
proof -
  note inv = table_invD [OF assms(1)]
  have fresh: "L n = None" using inv(1) [of n] by (cases "L n") auto
  have Mn: "M p' \<noteq> Some n" for p' using inv(5) [of p' n] fresh by auto
  show ?thesis
  proof (rule table_invI, goal_cases)
    case (1 q l)
    then show ?case using inv(1,2) [of q l] assms(5) by (auto split: if_splits)
  next
    case (2 q l)
    show ?case
    proof (cases "q = n")
      case True
      then show ?thesis using 2 assms(4) by auto
    next
      case False
      then have "L q = Some l" using 2(1) by simp
      then obtain p' where "M p' = Some q" "\<not> pl_cancelled l" using inv(3) 2(2) by blast
      then show ?thesis using assms(2) by (intro conjI exI [of _ p']) auto
    qed
  next
    case (3 q l)
    then show ?case using inv(4) [of q l] assms(3) by (auto split: if_splits)
  next
    case (4 p' q)
    then show ?case using inv(5) [of p' q] assms(3,6) Mn [of p'] fresh by (auto split: if_splits)
  next
    case (5 p1 p2 q)
    then show ?case using inv(6) [of p1 q p2] Mn by (auto split: if_splits)
  next
    case (6 q q' l l1)
    then show ?case using inv(7) [of q l q' l1] assms(7) [of q l] assms(7) [of q' l1]
      by (auto split: if_splits)
  qed
qed

lemma table_inv_revise:
  assumes "table_inv M L n" "L r = Some l"
  shows "table_inv M (L(r \<mapsto> l\<lparr>pl_revision := v\<rparr>)) n"
proof -
  note inv = table_invD [OF assms(1)]
  show ?thesis
  proof (rule table_invI, goal_cases)
    case (1 q k)
    then show ?case using inv(1,2) [of q] assms(2) by (auto split: if_splits)
  next
    case (2 q k)
    then show ?case using inv(3) [of q] assms(2) by (auto split: if_splits)
  next
    case (3 q k)
    then show ?case using inv(4) [of q] assms(2) by (auto split: if_splits)
  next
    case (4 p' q)
    then show ?case using inv(5) [of p' q] assms(2) by auto
  next
    case (5 p1 p2 q)
    then show ?case using inv(6) by blast
  next
    case (6 q q' l1 l2)
    have "\<exists>k. L q = Some k \<and> pl_connOpen k \<and> pl_port k = pl_port l1"
      using 6(1,3) assms(2) by (cases "q = r") auto
    moreover have "\<exists>k. L q' = Some k \<and> pl_connOpen k \<and> pl_port k = pl_port l1"
      using 6(2,4,5) assms(2) by (cases "q' = r") auto
    ultimately show ?case using inv(7) [of q _ q'] by auto
  qed
qed

section \<open>The operations implement the table and keep the invariant\<close>

lemma lookup_Some:
  assumes "proxy_inv p" "gm_get (mappings p) port = Some r"
  obtains l where "gm_get (px_listeners p) r = Some l" "lookup_listener p port = Some (r, l)"
    "pl_connOpen l" "port = 0 \<or> pl_port l = port" "gm_ok (pl_sessions l)"
proof -
  have inv: "table_inv (gm_get (mappings p)) (gm_get (px_listeners p)) (nextListener p)"
    using assms(1) by (simp add: proxy_inv_def)
  from table_invD(5) [OF inv assms(2)] obtain l where
    l: "gm_get (px_listeners p) r = Some l" "pl_connOpen l" "port = 0 \<or> pl_port l = port" by blast
  with table_invD(2) [OF inv l(1)] assms(2) show ?thesis
    by (intro that) (simp_all add: lookup_listener_def)
qed

lemma lookup_None: "proxy_inv p \<Longrightarrow> lookup_listener p port = None \<longleftrightarrow> gm_get (mappings p) port = None"
  by (cases "gm_get (mappings p) port") (auto simp: lookup_listener_def elim: lookup_Some [of p port])

lemma routes_dom: "proxy_inv p \<Longrightarrow> routes p port = None \<longleftrightarrow> gm_get (mappings p) port = None"
  by (simp add: routes_def lookup_None)

lemma lookup_inj:
  assumes "proxy_inv p" "lookup_listener p port = Some (r, l)" "lookup_listener p port' = Some (r, l')"
  shows "port = port'"
proof -
  have "table_inv (gm_get (mappings p)) (gm_get (px_listeners p)) (nextListener p)"
    using assms(1) by (simp add: proxy_inv_def)
  from table_invD(6) [OF this, of port r port'] assms(2,3) show ?thesis
    by (simp add: lookup_listener_def split: option.splits)
qed

lemma RemoveMapping_None: "lookup_listener p port = None \<Longrightarrow> RemoveMapping port p = p"
  by (simp add: RemoveMapping_def)

lemma CloseAll_empties: "gm_ok m \<Longrightarrow> fst (CloseAll (m, h)) = []"
proof -
  assume "gm_ok m"
  then have "gm_get (fst (CloseAll (m, h))) k = None" for k
    using sessions.lookup_drop [of m h k] by (simp add: Get_def)
  then show ?thesis by (metis gm_keys_iff list.set_intros(1) list.simps(9) neq_Nil_conv)
qed

lemma RemoveMapping_Some:
  assumes "proxy_inv p" "lookup_listener p port = Some (r, l)"
  shows "RemoveMapping port p =
    p\<lparr>mappings := gm_del port (mappings p),
      px_listeners := gm_set r (l\<lparr>pl_cancelled := True, pl_connOpen := False, pl_sessions := []\<rparr>)
        (px_listeners p),
      px_sessions := close_set {q. \<exists>k. Get (pl_sessions l) k = Some q} (px_sessions p)\<rparr>"
proof -
  have "gm_ok (pl_sessions l)"
    using assms lookup_Some [OF assms(1)]
    by (cases "gm_get (mappings p) port") (force simp: lookup_listener_def)+
  then have "CloseAll (pl_sessions l, px_sessions p) =
      ([], close_set {q. \<exists>k. Get (pl_sessions l) k = Some q} (px_sessions p))"
    by (intro prod_eqI) (simp_all add: CloseAll_empties sessions.close_drop)
  then show ?thesis
    using assms(2) by (simp add: RemoveMapping_def)
qed

lemma RemoveMapping_inv:
  assumes "proxy_inv p"
  shows "proxy_inv (RemoveMapping port p)"
proof (cases "lookup_listener p port")
  case None
  with assms show ?thesis by (simp add: RemoveMapping_None)
next
  case (Some rl)
  obtain r l where rl: "lookup_listener p port = Some (r, l)" using Some by (cases rl) simp
  then have M: "gm_get (mappings p) port = Some r" by (simp add: lookup_listener_def split: option.splits)
  have "table_inv (gm_get (mappings p)) (gm_get (px_listeners p)) (nextListener p)"
    using assms by (simp add: proxy_inv_def)
  from table_inv_remove [OF this M, of "l\<lparr>pl_cancelled := True, pl_connOpen := False, pl_sessions := []\<rparr>"]
  show ?thesis
    using assms by (simp add: RemoveMapping_Some [OF assms rl] proxy_inv_def fun_upd_def)
qed

lemma RemoveMapping_lookup:
  assumes "proxy_inv p"
  shows "lookup_listener (RemoveMapping port p) q =
    (if q = port then None else lookup_listener p q)"
proof (cases "lookup_listener p port")
  case None
  then show ?thesis by (simp add: RemoveMapping_None)
next
  case (Some rl)
  obtain r l where rl: "lookup_listener p port = Some (r, l)" using Some by (cases rl) simp
  have "gm_get (mappings p) q \<noteq> Some r" if "q \<noteq> port"
    using lookup_inj [OF assms rl, of q] lookup_Some [OF assms, of q r] that rl
    by (metis option.inject prod.inject)
  then show ?thesis
    by (auto simp: RemoveMapping_Some [OF assms rl] lookup_listener_def split: option.split)
qed

lemma RemoveMapping_routes:
  assumes "proxy_inv p"
  shows "routes (RemoveMapping port p) = (routes p)(port := None)"
  using RemoveMapping_lookup [OF assms] by (auto simp: routes_def fun_eq_iff)

lemma ListenUDP_frame:
  "ListenUDP os port p = (a, p') \<Longrightarrow> p' = p\<lparr>px_calls := px_calls p + 1\<rparr>"
  by (auto simp: ListenUDP_def Let_def)

lemma ListenUDP_Some:
  assumes "ListenUDP os port p = (Some q, p')"
  shows "port = 0 \<or> q = port" and "0 \<le> port" "port \<le> 65535"
    and "gm_get (px_listeners p) r = Some l \<Longrightarrow> pl_connOpen l \<Longrightarrow> pl_port l \<noteq> q"
proof -
  have "\<not> port_bound p q" and q: "port = 0 \<or> q = port" "0 \<le> port" "port \<le> 65535"
    using assms by (auto simp: ListenUDP_def Let_def split: if_splits option.splits)
  then show "port = 0 \<or> q = port" "0 \<le> port" "port \<le> 65535" by simp_all
  show "pl_port l \<noteq> q" if "gm_get (px_listeners p) r = Some l" "pl_connOpen l"
    using \<open>\<not> port_bound p q\<close> map_of_SomeD [OF that(1)] that(2)
    by (auto simp: port_bound_def list_ex_iff)
qed

text \<open>What \<open>addMapping\<close> does to a free port; the branch for a taken port is not reached.\<close>

lemma openMapping_free:
  assumes "proxy_inv p" "gm_get (mappings p) port = None"
    and "openMapping os port g n ns rv p = (res, p')"
  shows "proxy_inv p'" and "idleTimeout p' = idleTimeout p" "px_vip p' = px_vip p"
    and "routes p' = (case res of Inl _ \<Rightarrow> routes p | Inr _ \<Rightarrow> (routes p)(port \<mapsto>
      \<lparr>rt_gateway = g, rt_revision = rv, rt_tunnelName = n, rt_tunnelNamespace = ns\<rparr>))"
    and "res = Inr () \<or> res = Inl (ListenFailed port)"
proof -
  let ?pl = "\<lambda>q. \<lparr>pl_port = q, pl_connOpen = True, pl_gateway = g, pl_revision = rv,
     pl_tunnelName = n, pl_tunnelNamespace = ns, pl_sessions = NewSessionMap, pl_cancelled = False\<rparr>"
  obtain a p1 where a: "ListenUDP os port p = (a, p1)" by force
  note p1 = ListenUDP_frame [OF a]
  have t: "table_inv (gm_get (mappings p)) (gm_get (px_listeners p)) (nextListener p)"
    using assms(1) by (simp add: proxy_inv_def)
  have "proxy_inv p' \<and> idleTimeout p' = idleTimeout p \<and> px_vip p' = px_vip p \<and>
    routes p' = (case res of Inl _ \<Rightarrow> routes p | Inr _ \<Rightarrow> (routes p)(port \<mapsto>
      \<lparr>rt_gateway = g, rt_revision = rv, rt_tunnelName = n, rt_tunnelNamespace = ns\<rparr>)) \<and>
    (res = Inr () \<or> res = Inl (ListenFailed port))"
  proof (cases a)
    case None
    then show ?thesis
      using assms(1,3) a p1
      by (auto simp: openMapping_def proxy_inv_def routes_def fun_eq_iff lookup_listener_def
          split: option.split)
  next
    case (Some q)
    have res: "res = Inr ()" "p' = p\<lparr>px_calls := px_calls p + 1,
        px_listeners := gm_set (nextListener p) (?pl q) (px_listeners p),
        nextListener := Suc (nextListener p), mappings := gm_set port (nextListener p) (mappings p)\<rparr>"
      using assms(2,3) a p1 Some by (auto simp: openMapping_def Let_def)
    have "table_inv ((gm_get (mappings p))(port \<mapsto> nextListener p))
        ((gm_get (px_listeners p))(nextListener p \<mapsto> ?pl q)) (Suc (nextListener p))"
      using ListenUDP_Some(1,4) [OF a [unfolded Some]]
      by (intro table_inv_enter [OF t assms(2)]) (auto simp: NewSessionMap_def)
    moreover have "gm_get (mappings p) port' \<noteq> Some (nextListener p)" for port'
      using table_invD(5) [OF t, of port' "nextListener p"] table_invD(1) [OF t, of "nextListener p"] by auto
    ultimately show ?thesis
      using assms(1) res
      by (auto simp: proxy_inv_def routes_def fun_eq_iff lookup_listener_def listener_route_def
          fun_upd_def split: option.split)
  qed
  then show "proxy_inv p'" and "idleTimeout p' = idleTimeout p" "px_vip p' = px_vip p"
    and "routes p' = (case res of Inl _ \<Rightarrow> routes p | Inr _ \<Rightarrow> (routes p)(port \<mapsto>
      \<lparr>rt_gateway = g, rt_revision = rv, rt_tunnelName = n, rt_tunnelNamespace = ns\<rparr>))"
    and "res = Inr () \<or> res = Inl (ListenFailed port)" by blast+
qed

lemma routes_Some_iff:
  "routes p port = Some rt \<longleftrightarrow> (\<exists>r l. lookup_listener p port = Some (r, l) \<and> listener_route l = rt)"
  by (auto simp: routes_def)

lemma addMapping_spec:
  assumes "proxy_inv p" "addMapping os port g n ns rv p = (res, p')"
  defines "new \<equiv> \<lparr>rt_gateway = g, rt_revision = rv, rt_tunnelName = n, rt_tunnelNamespace = ns\<rparr>"
  shows "proxy_inv p'" and "idleTimeout p' = idleTimeout p" "px_vip p' = px_vip p"
    and "res = Inr () \<and> routes p' = upsert port new (routes p) \<or>
         res = Inl (ListenFailed port) \<and> routes p' = (routes p)(port := None)"
proof -
  have "proxy_inv p' \<and> idleTimeout p' = idleTimeout p \<and> px_vip p' = px_vip p \<and>
    (res = Inr () \<and> routes p' = upsert port new (routes p) \<or>
     res = Inl (ListenFailed port) \<and> routes p' = (routes p)(port := None))"
  proof (cases "lookup_listener p port")
    case None
    then have o: "openMapping os port g n ns rv p = (res, p')"
      using assms(2) by (simp add: addMapping_def)
    have free: "gm_get (mappings p) port = None" using None lookup_None [OF assms(1)] by simp
    have "routes p port = None" using None by (simp add: routes_def)
    with openMapping_free [OF assms(1) free o] show ?thesis
      by (auto simp: new_def upsert_def newer_def fun_eq_iff)
  next
    case (Some rl)
    obtain r l where rl: "lookup_listener p port = Some (r, l)" using Some by (cases rl) simp
    then have L: "gm_get (px_listeners p) r = Some l" "gm_get (mappings p) port = Some r"
      by (auto simp: lookup_listener_def split: option.splits)
    have old: "routes p port = Some (listener_route l)" using rl by (simp add: routes_def)
    let ?same = "pl_tunnelName l = n \<and> pl_tunnelNamespace l = ns"
    have same: "same_tunnel (listener_route l) new \<longleftrightarrow> ?same"
      by (simp add: same_tunnel_def listener_route_def new_def)
    have triv: "(routes p)(port \<mapsto> listener_route l) = routes p" using old by (simp add: map_upd_triv)
    consider (stale) "?same" "pl_revision l > rv" | (keep) "?same" "\<not> pl_revision l > rv" "pl_gateway l = g"
      | (replace) "\<not> (?same \<and> pl_revision l > rv)" "\<not> (?same \<and> pl_gateway l = g)" by blast
    then show ?thesis
    proof cases
      case stale
      then have "res = Inr ()" "p' = p" using assms(2) rl by (auto simp: addMapping_def)
      then show ?thesis
        using stale assms(1) old same triv by (simp add: upsert_def newer_def) (simp add: listener_route_def new_def)
    next
      case keep
      have up: "upsert port new (routes p) = (routes p)(port \<mapsto> new)"
        using keep old same by (simp add: upsert_def newer_def) (simp add: listener_route_def new_def)
      have res: "res = Inr ()" "p' = (if pl_revision l < rv
          then p\<lparr>px_listeners := gm_set r (l\<lparr>pl_revision := rv\<rparr>) (px_listeners p)\<rparr> else p)"
        using keep assms(2) rl by (auto simp: addMapping_def)
      show ?thesis
      proof (cases "pl_revision l < rv")
        case False
        then have "listener_route l = new" using keep by (simp add: listener_route_def new_def)
        then show ?thesis using res False assms(1) up triv by simp
      next
        case True
        let ?q = "p\<lparr>px_listeners := gm_set r (l\<lparr>pl_revision := rv\<rparr>) (px_listeners p)\<rparr>"
        have "table_inv (gm_get (mappings p)) ((gm_get (px_listeners p))(r \<mapsto> l\<lparr>pl_revision := rv\<rparr>)) (nextListener p)"
          using assms(1) L(1) by (intro table_inv_revise) (simp_all add: proxy_inv_def)
        then have "proxy_inv ?q" using assms(1) by (simp add: proxy_inv_def fun_upd_def)
        moreover have "routes ?q q' = ((routes p)(port \<mapsto> new)) q'" for q'
        proof (cases "q' = port")
          case True
          then show ?thesis using L(2) keep by (simp add: routes_def lookup_listener_def listener_route_def new_def)
        next
          case False
          have "gm_get (mappings p) q' \<noteq> Some r"
            using lookup_inj [OF assms(1) rl, of q'] lookup_Some [OF assms(1), of q' r] False
            by (metis L(1) option.inject)
          then show ?thesis using False
            by (auto simp: routes_def lookup_listener_def split: option.split)
        qed
        ultimately show ?thesis using True res up by (auto simp: fun_eq_iff)
      qed
    next
      case replace
      let ?p = "RemoveMapping port p"
      have o: "openMapping os port g n ns rv ?p = (res, p')"
        using replace assms(2) rl by (auto simp: addMapping_def)
      have inv: "proxy_inv ?p" using assms(1) by (rule RemoveMapping_inv)
      have free: "gm_get (mappings ?p) port = None"
        using RemoveMapping_lookup [OF assms(1), of port port] lookup_None [OF inv, of port] by simp
      have "upsert port new (routes p) = (routes p)(port \<mapsto> new)"
        using replace old same by (simp add: upsert_def newer_def) (auto simp: listener_route_def new_def)
      moreover have "idleTimeout ?p = idleTimeout p" "px_vip ?p = px_vip p"
        by (simp_all add: RemoveMapping_Some [OF assms(1) rl])
      ultimately show ?thesis
        using openMapping_free [OF inv free o] RemoveMapping_routes [OF assms(1), of port]
        by (auto simp: new_def)
    qed
  qed
  then show "proxy_inv p'" and "idleTimeout p' = idleTimeout p" "px_vip p' = px_vip p"
    and "res = Inr () \<and> routes p' = upsert port new (routes p) \<or>
         res = Inl (ListenFailed port) \<and> routes p' = (routes p)(port := None)" by blast+
qed

end
