(* ===== verification/Proxy_Props.thy ===== *)
theory Proxy_Props
  imports Udp_Proxy
begin

text \<open>
  The contract of the port table as a locale, met by the UDP proxy, and the properties of the
  proxy: it refines the table, its open sockets are those of the table in every reachable
  state, a snapshot is reconciled exactly, and updates may be replayed in any order.
\<close>

section \<open>Tables\<close>

lemma newer_idem [simp]: "newer rt (Some (newer rt o')) = newer rt o'"
  by (auto simp: newer_def same_tunnel_def split: option.split)

text \<open>A sequence of mappings acts on each port by itself.\<close>

definition upsert_mapping :: "TunnelMapping option \<Rightarrow> (int \<rightharpoonup> route) \<Rightarrow> (int \<rightharpoonup> route)" where
  "upsert_mapping m T = (if invalid_mapping m then T else upsert (GetForwarderPort m) (mapping_route m) T)"

lemma upsert_fold_port:
  "fold upsert_mapping ms T p =
     fold (\<lambda>m o'. Some (newer (mapping_route m) o'))
       (filter (\<lambda>m. \<not> invalid_mapping m \<and> GetForwarderPort m = p) ms) (T p)"
  by (induction ms arbitrary: T) (auto simp: upsert_mapping_def upsert_def)

lemma upsert_fold_dom: "dom (fold upsert_mapping ms T) = dom T \<union> set (desired_ports ms)"
  by (induction ms arbitrary: T) (auto simp: upsert_mapping_def upsert_def desired_ports_def)

lemma upsert_fold_distinct:
  assumes "distinct (desired_ports ms)" "m \<in> set ms" "\<not> invalid_mapping m"
  shows "fold upsert_mapping ms T (GetForwarderPort m) =
    Some (newer (mapping_route m) (T (GetForwarderPort m)))"
proof -
  have "filter (\<lambda>m'. \<not> invalid_mapping m' \<and> GetForwarderPort m' = GetForwarderPort m) ms = [m]"
    using assms
  proof (induction ms)
    case (Cons x ms)
    have "filter (\<lambda>m'. \<not> invalid_mapping m' \<and> GetForwarderPort m' = GetForwarderPort m) ms = []"
      if "x = m"
      using Cons.prems that by (force simp: desired_ports_def filter_empty_conv image_iff)
    moreover have "GetForwarderPort x \<noteq> GetForwarderPort m" if "\<not> invalid_mapping x" "m \<in> set ms"
      using Cons.prems that by (auto simp: desired_ports_def)
    ultimately show ?case
      using Cons by (auto simp: desired_ports_def split: if_splits)
  qed simp
  then show ?thesis by (simp add: upsert_fold_port)
qed

section \<open>The contract\<close>

locale route_table =
  fixes inv :: "'s \<Rightarrow> bool"
    and view :: "'s \<Rightarrow> int \<rightharpoonup> route"
    and ports :: "'s \<Rightarrow> int list"
    and apply_m :: "TunnelMapping option \<Rightarrow> 's \<Rightarrow> (proxy_error + unit) \<times> 's"
    and remove :: "int \<Rightarrow> 's \<Rightarrow> 's"
  assumes ports_view: "inv s \<Longrightarrow> set (ports s) = dom (view s)"
    and apply_ok: "inv s \<Longrightarrow> apply_m m s = (Inr (), t) \<Longrightarrow>
      inv t \<and> \<not> invalid_mapping m \<and> view t = upsert_mapping m (view s)"
    and apply_invalid: "invalid_mapping m \<Longrightarrow> apply_m m s = (Inl InvalidTunnelMapping, s)"
    and apply_err: "inv s \<Longrightarrow> \<not> invalid_mapping m \<Longrightarrow> apply_m m s = (Inl e, t) \<Longrightarrow>
      inv t \<and> view t = (view s)(GetForwarderPort m := None)"
    and remove_inv: "inv s \<Longrightarrow> inv (remove p s)"
    and remove_view: "inv s \<Longrightarrow> view (remove p s) = (view s)(p := None)"
begin

lemma apply_again:
  assumes "inv s" "apply_m m s = (Inr (), t)" "apply_m m t = (Inr (), u)"
  shows "view u = view t"
proof -
  have t: "inv t" "\<not> invalid_mapping m" "view t = upsert_mapping m (view s)"
    using apply_ok [OF assms(1,2)] by auto
  show ?thesis
    using apply_ok [OF t(1) assms(3)] t(2,3) by (auto simp: upsert_mapping_def upsert_def fun_eq_iff)
qed

text \<open>An older revision of the tunnel that has the port is a no-op.\<close>

lemma apply_stale:
  assumes "inv s" "apply_m m s = (Inr (), t)" "view s (GetForwarderPort m) = Some old"
    and "same_tunnel old (mapping_route m)" "GetRevision m < rt_revision old"
  shows "view t = view s"
  using apply_ok [OF assms(1,2)] assms(3-5)
  by (auto simp: upsert_mapping_def upsert_def newer_def mapping_route_def map_upd_triv)

lemma apply_any_inv: "inv s \<Longrightarrow> apply_m m s = (r, t) \<Longrightarrow> inv t"
proof (cases "invalid_mapping m")
  case True
  assume "inv s" "apply_m m s = (r, t)"
  with apply_invalid [OF True, of s] show ?thesis by simp
next
  case False
  assume "inv s" "apply_m m s = (r, t)"
  then show ?thesis
  proof (cases r)
    case (Inl e)
    with \<open>inv s\<close> False \<open>apply_m m s = (r, t)\<close> show ?thesis using apply_err by blast
  next
    case (Inr u)
    with \<open>inv s\<close> \<open>apply_m m s = (r, t)\<close> show ?thesis using apply_ok [of s m t] by simp
  qed
qed

lemma remove_list_inv: "inv s \<Longrightarrow> inv (fold remove ps s)"
  by (induction ps arbitrary: s) (auto simp: remove_inv)

lemma remove_list_view:
  "inv s \<Longrightarrow> view (fold remove ps s) = (\<lambda>p. if p \<in> set ps then None else view s p)"
  by (induction ps arbitrary: s) (auto simp: remove_inv remove_view fun_eq_iff)

text \<open>Applying a list of mappings without an error.\<close>

lemma apply_list_view:
  "inv s \<Longrightarrow> for_each apply_m ms s = (Inr (), t) \<Longrightarrow>
   inv t \<and> (\<forall>m \<in> set ms. \<not> invalid_mapping m) \<and> view t = fold upsert_mapping ms (view s)"
proof (induction ms arbitrary: s)
  case (Cons m ms)
  obtain s1 where s1: "apply_m m s = (Inr (), s1)" "for_each apply_m ms s1 = (Inr (), t)"
    using Cons.prems(2) by (auto split: prod.splits sum.splits)
  from apply_ok [OF Cons.prems(1) s1(1)] Cons.IH [OF _ s1(2)] show ?case by auto
qed simp

text \<open>Removing the ports that are not wanted.\<close>

lemma remove_unwanted:
  assumes "inv s"
  shows "inv (fold (\<lambda>p s. if p \<in> D then s else remove p s) ps s)"
    and "view (fold (\<lambda>p s. if p \<in> D then s else remove p s) ps s) =
         (\<lambda>p. if p \<in> set ps - D then None else view s p)"
proof -
  have "fold (\<lambda>p s. if p \<in> D then s else remove p s) ps s = fold remove (filter (\<lambda>p. p \<notin> D) ps) s"
    by (induction ps arbitrary: s) auto
  then show "inv (fold (\<lambda>p s. if p \<in> D then s else remove p s) ps s)"
    and "view (fold (\<lambda>p s. if p \<in> D then s else remove p s) ps s) =
         (\<lambda>p. if p \<in> set ps - D then None else view s p)"
    using remove_list_inv [OF assms] remove_list_view [OF assms] by auto
qed

end

interpretation proxy_table: route_table proxy_inv routes Ports "ApplyMapping os" RemoveMapping
proof (unfold_locales, goal_cases)
  case (1 p)
  then show ?case
    using routes_dom [OF 1] gm_keys_iff [of _ "mappings p"] by (auto simp: Ports_def dom_def simp del: set_map)
next
  case (2 p m q)
  then show ?case
    using addMapping_spec [of p os "GetForwarderPort m" "GetGatewayAddress m" "GetTunnelName m"
        "GetTunnelNamespace m" "GetRevision m" "Inr ()" q]
    by (auto simp: ApplyMapping_def upsert_mapping_def mapping_route_def split: if_splits)
next
  case (3 m p)
  then show ?case by (simp add: ApplyMapping_def)
next
  case (4 p m e q)
  then show ?case
    using addMapping_spec [of p os "GetForwarderPort m" "GetGatewayAddress m" "GetTunnelName m"
        "GetTunnelNamespace m" "GetRevision m" "Inl e" q]
    by (auto simp: ApplyMapping_def)
qed (simp_all add: RemoveMapping_inv RemoveMapping_routes)

section \<open>Reconciling a snapshot\<close>

lemma reconcile_one_spec:
  assumes "proxy_inv p" "reconcile_one os m p = (res, q)"
  shows "proxy_inv q" and "res = Inr () \<Longrightarrow> routes q = upsert_mapping m (routes p)"
    and "res = Inl e \<Longrightarrow> \<not> invalid_mapping m \<and> e = ApplyFailed (GetForwarderPort m) (ListenFailed (GetForwarderPort m)) \<and>
      routes q = (routes p)(GetForwarderPort m := None)"
proof -
  have "proxy_inv q \<and> (res = Inr () \<longrightarrow> routes q = upsert_mapping m (routes p)) \<and>
    (\<forall>e. res = Inl e \<longrightarrow> \<not> invalid_mapping m \<and>
      e = ApplyFailed (GetForwarderPort m) (ListenFailed (GetForwarderPort m)) \<and>
      routes q = (routes p)(GetForwarderPort m := None))"
  proof (cases "invalid_mapping m")
    case True
    then show ?thesis using assms by (auto simp: reconcile_one_def upsert_mapping_def)
  next
    case False
    obtain r q' where a: "ApplyMapping os m p = (r, q')" by force
    then have r: "r = Inr () \<or> r = Inl (ListenFailed (GetForwarderPort m))"
      using False addMapping_spec(4) [OF assms(1), of os "GetForwarderPort m" "GetGatewayAddress m"
          "GetTunnelName m" "GetTunnelNamespace m" "GetRevision m" r q']
      by (auto simp: ApplyMapping_def)
    show ?thesis
    proof (cases r)
      case (Inl e)
      then show ?thesis
        using False a r assms(2) proxy_table.apply_err [OF assms(1) False a [unfolded Inl]]
        by (auto simp: reconcile_one_def)
    next
      case (Inr u)
      then show ?thesis
        using False a assms(2) proxy_table.apply_ok [OF assms(1), of os m q'] by (auto simp: reconcile_one_def)
    qed
  qed
  then show "proxy_inv q" and "res = Inr () \<Longrightarrow> routes q = upsert_mapping m (routes p)"
    and "res = Inl e \<Longrightarrow> \<not> invalid_mapping m \<and> e = ApplyFailed (GetForwarderPort m) (ListenFailed (GetForwarderPort m)) \<and>
      routes q = (routes p)(GetForwarderPort m := None)" by blast+
qed

lemma reconcile_loop_inv:
  "proxy_inv p \<Longrightarrow> for_each (reconcile_one os) ms p = (res, q) \<Longrightarrow> proxy_inv q"
  by (rule for_each_inv [where I = proxy_inv]) (auto intro: reconcile_one_spec(1))

lemma reconcile_loop_ok:
  assumes "proxy_inv p" "for_each (reconcile_one os) ms p = (Inr (), q)"
  shows "proxy_inv q \<and> routes q = fold upsert_mapping ms (routes p)"
  using reconcile_one_spec(1,2)
  by (intro for_each_Inr_rel [where I = proxy_inv and v = routes, OF _ assms(1,2)]) blast+

lemma reconcile_loop_other:
  assumes "port \<notin> set (desired_ports ms)"
  shows "proxy_inv p \<Longrightarrow> for_each (reconcile_one os) ms p = (res, q) \<Longrightarrow> routes q port = routes p port"
  using assms
proof (induction ms arbitrary: p)
  case (Cons m ms)
  obtain r p1 where r: "reconcile_one os m p = (r, p1)" by force
  have ne: "invalid_mapping m \<or> GetForwarderPort m \<noteq> port"
    and nd: "port \<notin> set (desired_ports ms)" using Cons.prems(3) by (auto simp: desired_ports_def)
  have "routes p1 port = routes p port"
    using reconcile_one_spec(2,3) [OF Cons.prems(1) r] ne
    by (cases r) (auto simp: upsert_mapping_def upsert_def)
  moreover have "routes q port = routes p1 port"
    using Cons.prems(2) r Cons.IH [OF reconcile_one_spec(1) [OF Cons.prems(1) r] _ nd]
    by (cases r) auto
  ultimately show ?case by simp
qed simp

lemma ReconcileMappings_inv:
  assumes "proxy_inv p" "ReconcileMappings os ms p = (res, q)"
  shows "proxy_inv q"
  using assms reconcile_loop_inv [OF assms(1)] proxy_table.remove_unwanted(1)
  by (auto simp: ReconcileMappings_def split: prod.splits sum.splits)

lemma ReconcileMappings_view:
  assumes "proxy_inv p" "ReconcileMappings os ms p = (Inr (), q)"
  shows "routes q = fold upsert_mapping ms (routes p) |` set (desired_ports ms)"
proof -
  let ?D = "set (desired_ports ms)"
  obtain p1 where l: "for_each (reconcile_one os) ms p = (Inr (), p1)"
    and q: "q = fold (\<lambda>port p. if port \<in> ?D then p else RemoveMapping port p) (Ports p1) p1"
    using assms(2) by (auto simp: ReconcileMappings_def split: prod.splits sum.splits)
  have p1: "proxy_inv p1" "routes p1 = fold upsert_mapping ms (routes p)"
    using reconcile_loop_ok [OF assms(1) l] by auto
  have "routes q = (\<lambda>port. if port \<in> set (Ports p1) - ?D then None else routes p1 port)"
    using proxy_table.remove_unwanted(2) [OF p1(1), of ?D "Ports p1"] q by simp
  also have "\<dots> = routes p1 |` ?D"
    using proxy_table.ports_view [OF p1(1)] by (auto simp: restrict_map_def fun_eq_iff dom_def)
  finally show ?thesis using p1(2) by simp
qed


text \<open>Mappings and an operating system for the witnesses: it grants every port but 7.\<close>

definition ex_mapping1 :: "string \<Rightarrow> int \<Rightarrow> string \<Rightarrow> int \<Rightarrow> TunnelMapping option" where
  "ex_mapping1 n port g rv = Some \<lparr>tm_TunnelName = Some n, tm_TunnelNamespace = Some ''ns'',
     tm_ForwarderPort = Some port, tm_GatewayAddress = Some g, tm_Revision = Some rv,
     tm_GatewayPodUid = None, tm_GatewayPodIp = None\<rparr>"

definition ex_os :: "nat \<Rightarrow> int \<Rightarrow> int option" where
  "ex_os n port = (if port = 7 then None else Some port)"

definition ex_proxy :: UDPProxy where
  "ex_proxy = snd (ApplyMapping ex_os (ex_mapping1 ''a'' 5 ''g1'' 3) (NewUDPProxy 60))"

lemma NewUDPProxy_inv: "proxy_inv (NewUDPProxy t)"
  by (simp add: proxy_inv_def table_inv_def NewUDPProxy_def)

lemma ex_proxy_inv: "proxy_inv ex_proxy"
  unfolding ex_proxy_def using proxy_table.apply_any_inv [OF NewUDPProxy_inv] by (metis prod.collapse)


section \<open>One update\<close>

text \<open>
  C9: applying a mapping refines the table. An invalid mapping is rejected without effect. A
  mapping that is accepted becomes the route of its port, unless it is an older revision of
  the tunnel that has the port, and touches no other port. The only other outcome is that the
  operating system refuses the port: then the port is not served any more, also if it was
  served before, and no other port is touched. As long as the gateway of the tunnel stays the
  same, or the mapping is older, the listener and its sessions survive.
\<close>

theorem ApplyMapping_refines:
  assumes "proxy_inv p" and "ApplyMapping os m p = (res, q)"
  shows "proxy_inv q \<and>
    (if invalid_mapping m then res = Inl InvalidTunnelMapping \<and> q = p
     else res = Inr () \<and> routes q = upsert (GetForwarderPort m) (mapping_route m) (routes p) \<or>
          res = Inl (ListenFailed (GetForwarderPort m)) \<and> routes q = (routes p)(GetForwarderPort m := None)) \<and>
    (\<forall>r l. lookup_listener p (GetForwarderPort m) = Some (r, l) \<longrightarrow>
       same_tunnel (listener_route l) (mapping_route m) \<longrightarrow>
       pl_gateway l = GetGatewayAddress m \<or> GetRevision m < pl_revision l \<longrightarrow>
       (\<exists>l'. lookup_listener q (GetForwarderPort m) = Some (r, l') \<and> pl_sessions l' = pl_sessions l))"
proof (cases "invalid_mapping m")
  case True
  then show ?thesis using assms by (simp add: ApplyMapping_def)
next
  case False
  then have add: "addMapping os (GetForwarderPort m) (GetGatewayAddress m) (GetTunnelName m)
      (GetTunnelNamespace m) (GetRevision m) p = (res, q)"
    using assms(2) by (simp add: ApplyMapping_def)
  have "\<exists>l'. lookup_listener q (GetForwarderPort m) = Some (r, l') \<and> pl_sessions l' = pl_sessions l"
    if "lookup_listener p (GetForwarderPort m) = Some (r, l)"
      "same_tunnel (listener_route l) (mapping_route m)"
      "pl_gateway l = GetGatewayAddress m \<or> GetRevision m < pl_revision l" for r l
    using that add
    by (auto simp: addMapping_def same_tunnel_def listener_route_def mapping_route_def
        lookup_listener_def split: if_splits option.splits)
  then show ?thesis
    using False addMapping_spec(1,4) [OF assms(1) add] by (auto simp: mapping_route_def)
qed

theorem ApplyMapping_refines_witness:
  "\<exists>q. ApplyMapping ex_os (ex_mapping1 ''a'' 5 ''g1'' 4) ex_proxy = (Inr (), q) \<and> proxy_inv q \<and>
     routes q = upsert 5 (mapping_route (ex_mapping1 ''a'' 5 ''g1'' 4)) (routes ex_proxy)"
proof -
  let ?m = "ex_mapping1 ''a'' 5 ''g1'' 4"
  obtain res q where e: "ApplyMapping ex_os ?m ex_proxy = (res, q)" by force
  have "fst (ApplyMapping ex_os ?m ex_proxy) = Inr ()" "\<not> invalid_mapping ?m" "GetForwarderPort ?m = 5"
    by code_simp+
  with ApplyMapping_refines [OF ex_proxy_inv e] e show ?thesis by auto
qed

text \<open>
  A refused replacement removes a mapping that worked, also in the middle of a reconciliation.
\<close>

lemma failed_replacement_removes:
  assumes "proxy_inv p" "ApplyMapping os m p = (Inl (ListenFailed port), q)"
  shows "routes q port = None"
  using assms(2) addMapping_spec(4) [OF assms(1)] by (fastforce simp: ApplyMapping_def split: if_splits)

section \<open>Order of updates\<close>

text \<open>Mappings of one tunnel on one port: the highest revision wins.\<close>

lemma newest_wins:
  assumes "\<And>m. m \<in> set ms \<Longrightarrow> same_tunnel (mapping_route m) rt0"
    and "same_tunnel rt rt0"
    and "\<And>a b. a \<in> insert rt (mapping_route ` set ms) \<Longrightarrow> b \<in> insert rt (mapping_route ` set ms) \<Longrightarrow>
      rt_revision a = rt_revision b \<Longrightarrow> a = b"
  shows "\<exists>w \<in> insert rt (mapping_route ` set ms).
    fold (\<lambda>m o'. Some (newer (mapping_route m) o')) ms (Some rt) = Some w \<and>
    (\<forall>a \<in> insert rt (mapping_route ` set ms). rt_revision a \<le> rt_revision w)"
  using assms
proof (induction ms arbitrary: rt)
  case (Cons m ms)
  let ?n = "newer (mapping_route m) (Some rt)"
  have st: "same_tunnel rt (mapping_route m)"
    using Cons.prems(1) [of m] Cons.prems(2) by (auto simp: same_tunnel_def)
  have n: "?n \<in> {rt, mapping_route m}" "rt_revision rt \<le> rt_revision ?n"
      "rt_revision (mapping_route m) \<le> rt_revision ?n"
    using st by (auto simp: newer_def)
  have sub: "insert ?n (mapping_route ` set ms) \<subseteq> insert rt (mapping_route ` set (m # ms))" using n(1) by auto
  have "\<exists>w \<in> insert ?n (mapping_route ` set ms).
      fold (\<lambda>m o'. Some (newer (mapping_route m) o')) ms (Some ?n) = Some w \<and>
      (\<forall>a \<in> insert ?n (mapping_route ` set ms). rt_revision a \<le> rt_revision w)"
  proof (rule Cons.IH)
    show "same_tunnel (mapping_route x) rt0" if "x \<in> set ms" for x using Cons.prems(1) that by simp
    show "same_tunnel ?n rt0" using n(1) Cons.prems(1) [of m] Cons.prems(2) by auto
    show "a = b" if "a \<in> insert ?n (mapping_route ` set ms)" "b \<in> insert ?n (mapping_route ` set ms)"
        "rt_revision a = rt_revision b" for a b
      using Cons.prems(3) [OF subsetD [OF sub that(1)] subsetD [OF sub that(2)] that(3)] .
  qed
  then obtain w where w: "w \<in> insert ?n (mapping_route ` set ms)"
      "fold (\<lambda>m o'. Some (newer (mapping_route m) o')) ms (Some ?n) = Some w"
      "\<forall>a \<in> insert ?n (mapping_route ` set ms). rt_revision a \<le> rt_revision w" by blast
  have "w \<in> insert rt (mapping_route ` set (m # ms))" using w(1) sub by blast
  moreover have "rt_revision a \<le> rt_revision w" if "a \<in> insert rt (mapping_route ` set (m # ms))" for a
    using that w(3) n(2,3) by auto
  ultimately show ?case using w(2) by auto
qed simp

lemma newest_wins_None:
  assumes "ms \<noteq> []" "\<And>m. m \<in> set ms \<Longrightarrow> same_tunnel (mapping_route m) rt0"
    and "\<And>m m'. m \<in> set ms \<Longrightarrow> m' \<in> set ms \<Longrightarrow> GetRevision m = GetRevision m' \<Longrightarrow>
      mapping_route m = mapping_route m'"
  shows "\<exists>m \<in> set ms. fold (\<lambda>m o'. Some (newer (mapping_route m) o')) ms None = Some (mapping_route m) \<and>
    (\<forall>m' \<in> set ms. GetRevision m' \<le> GetRevision m)"
proof -
  obtain m0 ms0 where ms: "ms = m0 # ms0" using assms(1) by (cases ms) auto
  have rev: "rt_revision (mapping_route m) = GetRevision m" for m by (simp add: mapping_route_def)
  have st: "same_tunnel (mapping_route m0) rt0" "\<And>m. m \<in> set ms0 \<Longrightarrow> same_tunnel (mapping_route m) rt0"
    using assms(2) ms by auto
  have uniq: "a = b" if "a \<in> insert (mapping_route m0) (mapping_route ` set ms0)"
      "b \<in> insert (mapping_route m0) (mapping_route ` set ms0)" "rt_revision a = rt_revision b" for a b
    using that assms(3) unfolding ms by (auto simp: rev)
  obtain w where w: "w \<in> insert (mapping_route m0) (mapping_route ` set ms0)"
      "fold (\<lambda>m o'. Some (newer (mapping_route m) o')) ms0 (Some (mapping_route m0)) = Some w"
      "\<forall>a \<in> insert (mapping_route m0) (mapping_route ` set ms0). rt_revision a \<le> rt_revision w"
    using newest_wins [OF st(2) st(1) uniq] by blast
  then obtain m where m: "m \<in> set ms" "w = mapping_route m" using ms by auto
  moreover have "fold (\<lambda>m o'. Some (newer (mapping_route m) o')) ms None = Some w"
    using w(2) ms by (simp add: newer_def)
  moreover have "\<forall>m' \<in> set ms. GetRevision m' \<le> GetRevision m"
    using w(3) ms m(2) by (auto simp: rev)
  ultimately show ?thesis by blast
qed

text \<open>
  C30: mappings of one tunnel may be applied in any order and any number of times. If equal
  revisions carry equal mappings, two sequences with the same mappings for a port, applied
  without error to proxies that do not serve the port, leave the same route there: the one
  with the highest revision. Queued updates from before a snapshot are therefore safe to
  replay after it.
\<close>

theorem replay_order_irrelevant:
  assumes "proxy_inv p" and "proxy_inv p'"
    and "for_each (ApplyMapping os) ms p = (Inr (), q)" and "for_each (ApplyMapping os') ms' p' = (Inr (), q')"
    and "set ms = set ms'" and "routes p port = None" and "routes p' port = None"
    and "\<forall>m \<in> set ms. GetForwarderPort m = port \<and> same_tunnel (mapping_route m) rt0"
    and "\<forall>m \<in> set ms. \<forall>m' \<in> set ms. GetRevision m = GetRevision m' \<longrightarrow> mapping_route m = mapping_route m'"
  shows "routes q port = routes q' port \<and>
    (\<forall>m \<in> set ms. \<exists>rt. routes q port = Some rt \<and> GetRevision m \<le> rt_revision rt)"
proof -
  have view: "routes q port = fold (\<lambda>m o'. Some (newer (mapping_route m) o')) ms None"
    if "proxy_inv p" "for_each (ApplyMapping os) ms p = (Inr (), q)" "routes p port = None"
      "\<forall>m \<in> set ms. GetForwarderPort m = port" for os ms p q
  proof -
    note v = proxy_table.apply_list_view [OF that(1,2)]
    have "filter (\<lambda>m. \<not> invalid_mapping m \<and> GetForwarderPort m = port) ms = ms"
      using v that(4) by (simp add: filter_id_conv)
    then show ?thesis using v that(3) by (simp add: upsert_fold_port)
  qed
  have q: "routes q port = fold (\<lambda>m o'. Some (newer (mapping_route m) o')) ms None"
    using view [OF assms(1,3,6)] assms(8) by blast
  have q': "routes q' port = fold (\<lambda>m o'. Some (newer (mapping_route m) o')) ms' None"
    using view [OF assms(2,4,7)] assms(5,8) by blast
  show ?thesis
  proof (cases "ms = []")
    case True
    then show ?thesis using q q' assms(5) by simp
  next
    case False
    have st: "same_tunnel (mapping_route m) rt0" if "m \<in> set ms" for m using assms(8) that by blast
    have un: "mapping_route m = mapping_route m'"
      if "m \<in> set ms" "m' \<in> set ms" "GetRevision m = GetRevision m'" for m m'
      using assms(9) that by blast
    have w: "\<exists>m \<in> set xs. fold (\<lambda>m o'. Some (newer (mapping_route m) o')) xs None = Some (mapping_route m) \<and>
        (\<forall>m' \<in> set xs. GetRevision m' \<le> GetRevision m)" if "set xs = set ms" for xs
    proof (rule newest_wins_None [where ?rt0.0 = rt0])
      show "xs \<noteq> []" using that False by auto
      show "same_tunnel (mapping_route m) rt0" if "m \<in> set xs" for m
        using st that \<open>set xs = set ms\<close> by simp
      show "mapping_route m = mapping_route m'"
        if "m \<in> set xs" "m' \<in> set xs" "GetRevision m = GetRevision m'" for m m'
        using that unfolding \<open>set xs = set ms\<close> by (rule un)
    qed
    obtain m where m: "m \<in> set ms"
        "routes q port = Some (mapping_route m)" "\<forall>m' \<in> set ms. GetRevision m' \<le> GetRevision m"
      using w [of ms] unfolding q by blast
    obtain m' where m': "m' \<in> set ms'"
        "routes q' port = Some (mapping_route m')" "\<forall>m \<in> set ms'. GetRevision m \<le> GetRevision m'"
      using w [of ms'] assms(5) unfolding q' by blast
    have "GetRevision m = GetRevision m'" using m m' assms(5) by (simp add: order_antisym)
    then have "mapping_route m = mapping_route m'" using un [of m m'] m(1) m'(1) assms(5) by simp
    then show ?thesis using m m'(2) by (simp add: mapping_route_def)
  qed
qed

theorem replay_order_irrelevant_witness:
  "\<exists>q q'. for_each (ApplyMapping ex_os) [ex_mapping1 ''a'' 5 ''g1'' 1, ex_mapping1 ''a'' 5 ''g2'' 2] (NewUDPProxy 9) = (Inr (), q) \<and>
     for_each (ApplyMapping ex_os) [ex_mapping1 ''a'' 5 ''g2'' 2, ex_mapping1 ''a'' 5 ''g1'' 1] (NewUDPProxy 9) = (Inr (), q') \<and>
     routes q 5 = routes q' 5"
proof -
  let ?a = "ex_mapping1 ''a'' 5 ''g1'' 1" and ?b = "ex_mapping1 ''a'' 5 ''g2'' 2"
  obtain x q where q: "for_each (ApplyMapping ex_os) [?a, ?b] (NewUDPProxy 9) = (x, q)" by force
  obtain y q' where q': "for_each (ApplyMapping ex_os) [?b, ?a] (NewUDPProxy 9) = (y, q')" by force
  have "fst (for_each (ApplyMapping ex_os) [?a, ?b] (NewUDPProxy 9)) = Inr ()"
    "fst (for_each (ApplyMapping ex_os) [?b, ?a] (NewUDPProxy 9)) = Inr ()" by code_simp+
  then have xy: "x = Inr ()" "y = Inr ()" using q q' by simp_all
  have none: "routes (NewUDPProxy 9) 5 = None" by code_simp
  have set: "set [?a, ?b] = set [?b, ?a]" by auto
  have one: "\<forall>m \<in> set [?a, ?b]. GetForwarderPort m = 5 \<and> same_tunnel (mapping_route m) (mapping_route ?a)"
    and two: "\<forall>m \<in> set [?a, ?b]. \<forall>m' \<in> set [?a, ?b]. GetRevision m = GetRevision m' \<longrightarrow> mapping_route m = mapping_route m'"
    by (simp_all add: ex_mapping1_def getter_defs same_tunnel_def mapping_route_def)
  show ?thesis
    using replay_order_irrelevant [OF NewUDPProxy_inv NewUDPProxy_inv q [unfolded xy] q' [unfolded xy]
        set none none one two] q q' xy by blast
qed

section \<open>Closing\<close>

text \<open>The sessions of a mapped port.\<close>

definition port_sessions :: "UDPProxy \<Rightarrow> int \<Rightarrow> nat set" where
  "port_sessions p port = {q. \<exists>r l k. lookup_listener p port = Some (r, l) \<and> Get (pl_sessions l) k = Some q}"

lemma close_set_close_set: "close_set A (close_set B h) = close_set (A \<union> B) h"
  by (auto simp: close_set_def fun_eq_iff option.map_comp comp_def intro!: option.map_cong)

lemma RemoveMapping_sessions:
  assumes "proxy_inv p"
  shows "px_sessions (RemoveMapping port p) = close_set (port_sessions p port) (px_sessions p)"
proof (cases "lookup_listener p port")
  case None
  then show ?thesis by (simp add: RemoveMapping_None port_sessions_def)
next
  case (Some rl)
  obtain r l where rl: "lookup_listener p port = Some (r, l)" using Some by (cases rl) simp
  then show ?thesis by (simp add: RemoveMapping_Some [OF assms] port_sessions_def)
qed

lemma RemoveMapping_port_sessions:
  "proxy_inv p \<Longrightarrow> q \<noteq> port \<Longrightarrow> port_sessions (RemoveMapping port p) q = port_sessions p q"
  by (simp add: port_sessions_def RemoveMapping_lookup)

lemma remove_list_sessions:
  "proxy_inv p \<Longrightarrow> distinct ports \<Longrightarrow>
   px_sessions (fold RemoveMapping ports p) = close_set (\<Union>port \<in> set ports. port_sessions p port) (px_sessions p)"
proof (induction ports arbitrary: p)
  case (Cons a ports)
  have "(\<Union>port \<in> set ports. port_sessions (RemoveMapping a p) port) = (\<Union>port \<in> set ports. port_sessions p port)"
  proof (rule SUP_cong)
    fix x assume "x \<in> set ports"
    then have "x \<noteq> a" using Cons.prems(2) by auto
    then show "port_sessions (RemoveMapping a p) x = port_sessions p x"
      by (rule RemoveMapping_port_sessions [OF Cons.prems(1)])
  qed simp
  with Cons show ?case
    by (simp add: RemoveMapping_inv RemoveMapping_sessions close_set_close_set Un_commute)
qed simp



section \<open>The proxy as a machine\<close>

text \<open>
  Any sequence of operations, with the traffic of the open listeners in between: it changes
  the sessions and nothing else of the proxy.
\<close>

inductive proxy_step :: "(nat \<Rightarrow> int \<Rightarrow> int option) \<Rightarrow> UDPProxy \<Rightarrow> UDPProxy \<Rightarrow> bool" for os where
  apply_mapping: "proxy_step os p (snd (ApplyMapping os m p))"
| remove: "proxy_step os p (RemoveMapping port p)"
| reconcile: "proxy_step os p (snd (ReconcileMappings os ms p))"
| stop: "proxy_step os p (snd (Stop e p))"
| vip: "proxy_step os p (SetVIP v p)"
| traffic: "gm_get (px_listeners p) r = Some l \<Longrightarrow> pl_connOpen l \<Longrightarrow> gm_ok m \<Longrightarrow>
    proxy_step os p (p\<lparr>px_listeners := gm_set r (l\<lparr>pl_sessions := m\<rparr>) (px_listeners p), px_sessions := h\<rparr>)"

definition proxy_init :: "UDPProxy \<Rightarrow> bool" where
  "proxy_init p \<longleftrightarrow> (\<exists>t. p = NewUDPProxy t)"

lemma table_inv_sessions:
  assumes "table_inv M L n" "L r = Some l" "pl_connOpen l" "gm_ok m"
  shows "table_inv M (L(r \<mapsto> l\<lparr>pl_sessions := m\<rparr>)) n"
proof -
  note inv = table_invD [OF assms(1)]
  show ?thesis
  proof (rule table_invI, goal_cases)
    case (1 q k)
    then show ?case using inv(1,2) [of q] assms(2,4) by (cases "q = r") auto
  next
    case (2 q k)
    then show ?case using inv(3) [of q] assms(2) by (cases "q = r") auto
  next
    case (3 q k)
    then show ?case using inv(4) [of q] assms(2,3) by (cases "q = r") auto
  next
    case (4 p' q)
    then show ?case using inv(5) [of p' q] assms(2) by auto
  next
    case (5 p1 p2 q)
    then show ?case using inv(6) by blast
  next
    case (6 q q' l1 l2)
    have "\<exists>k. L q = Some k \<and> pl_connOpen k \<and> pl_port k = pl_port l1"
      using 6(1,3) assms(2) by (cases "q = r") auto
    moreover have "\<exists>k. L q' = Some k \<and> pl_connOpen k \<and> pl_port k = pl_port l1"
      using 6(2,4,5) assms(2) by (cases "q' = r") auto
    ultimately show ?case using inv(7) [of q _ q'] by auto
  qed
qed

interpretation proxy_machine: state_machine proxy_init "proxy_step os" proxy_inv
proof (unfold_locales, goal_cases)
  case (1 p)
  then show ?case by (auto simp: proxy_init_def NewUDPProxy_inv)
next
  case (2 p q)
  from 2(2,1) show ?case
  proof cases
    case (apply_mapping m)
    then show ?thesis using proxy_table.apply_any_inv [OF 2(1)] by (metis prod.collapse)
  next
    case (remove port)
    then show ?thesis using RemoveMapping_inv [OF 2(1)] by simp
  next
    case (reconcile ms)
    then show ?thesis using ReconcileMappings_inv [OF 2(1)] by (metis prod.collapse)
  next
    case (stop e)
    then show ?thesis
      using 2(1) proxy_table.remove_list_inv [OF 2(1)] by (cases e) (simp_all add: Stop_def Close_def)
  next
    case (vip v)
    then show ?thesis using 2(1) by (simp add: SetVIP_def proxy_inv_def)
  next
    case (traffic r l m h)
    have "table_inv (gm_get (mappings p)) ((gm_get (px_listeners p))(r \<mapsto> l\<lparr>pl_sessions := m\<rparr>)) (nextListener p)"
      using 2(1) traffic by (intro table_inv_sessions) (simp_all add: proxy_inv_def)
    then show ?thesis using 2(1) traffic by (simp add: proxy_inv_def fun_upd_def)
  qed
qed



end
