(* ===== verification/Config_Client.thy ===== *)
theory Config_Client
  imports Proto
begin

text \<open>
  The forwarder's side of the configuration protocol, \<open>pkg/forwarder/grpc_client.go\<close>, and the
  start-up loop of \<open>cmd/forwarder/main.go\<close> that connects it. The gRPC library is outside the
  sources: what its calls answer are arguments, one set per round of a loop or one event per
  step of \<open>WatchUpdates\<close>, and the calls made to it are recorded.
\<close>

section \<open>Connections\<close>

datatype grpc_call = NewClient string nat | CloseConn nat

record ConfigClient =
  cc_conn :: "nat option"
  cc_calls :: "grpc_call list"

definition NewConfigClient :: ConfigClient where
  "NewConfigClient = \<lparr>cc_conn = None, cc_calls = []\<rparr>"

text \<open>The first argument is what \<open>grpc.NewClient\<close> returns: an error or a connection.\<close>

definition Connect :: "string + nat \<Rightarrow> string \<Rightarrow> ConfigClient \<Rightarrow> string option \<times> ConfigClient" where
  "Connect answer addr c =
     (case answer of
        Inl err \<Rightarrow> (Some err, c)
      | Inr conn \<Rightarrow> (None, c\<lparr>cc_conn := Some conn, cc_calls := cc_calls c @ [NewClient addr conn]\<rparr>))"

definition closeClient :: "string option \<Rightarrow> ConfigClient \<Rightarrow> string option \<times> ConfigClient" where
  "closeClient answer c =
     (case cc_conn c of
        None \<Rightarrow> (None, c)
      | Some conn \<Rightarrow> (answer, c\<lparr>cc_calls := cc_calls c @ [CloseConn conn]\<rparr>))"

section \<open>connectAndFetchConfig\<close>

text \<open>What one round of the loop meets.\<close>

record attempt =
  at_ctxErr :: "string option"
  at_newClient :: "string + nat"
  at_fetch :: "string + ForwarderConfig option"
  at_close :: "string option"
  at_waitErr :: "string option"

text \<open>\<^const>\<open>None\<close> is the loop still running when the given rounds are over.\<close>

fun connectAndFetchConfig ::
  "string \<Rightarrow> attempt list \<Rightarrow> ConfigClient \<Rightarrow> ((string + ForwarderConfig option) \<times> ConfigClient) option" where
  "connectAndFetchConfig addr [] c = None"
| "connectAndFetchConfig addr (a # as) c =
     (case at_ctxErr a of
        Some err \<Rightarrow> Some (Inl err, c)
      | None \<Rightarrow>
          (let wait = (\<lambda>c. case at_waitErr a of
                 Some err \<Rightarrow> Some (Inl err, c)
               | None \<Rightarrow> connectAndFetchConfig addr as c)
           in case Connect (at_newClient a) addr c of
                (Some err, c1) \<Rightarrow> wait c1
              | (None, c1) \<Rightarrow>
                  (case at_fetch a of
                     Inr config \<Rightarrow> Some (Inr config, c1)
                   | Inl err \<Rightarrow> wait (snd (closeClient (at_close a) c1)))))"

text \<open>How a round ends by itself: with a result, or with another round.\<close>

definition attempt_result :: "attempt \<Rightarrow> (string + ForwarderConfig option) option" where
  "attempt_result a =
     (case (at_ctxErr a, at_newClient a, at_fetch a) of
        (Some err, _, _) \<Rightarrow> Some (Inl err)
      | (None, Inr _, Inr config) \<Rightarrow> Some (Inr config)
      | _ \<Rightarrow> map_option Inl (at_waitErr a))"

definition conns_closed :: "ConfigClient \<Rightarrow> nat option \<Rightarrow> bool" where
  "conns_closed c used \<longleftrightarrow>
     (\<forall>addr k. NewClient addr k \<in> set (cc_calls c) \<longrightarrow> CloseConn k \<in> set (cc_calls c) \<or> used = Some k)"

lemma connect_result:
  "map_option fst (connectAndFetchConfig addr as c) =
     (case List.map_filter attempt_result as of [] \<Rightarrow> None | r # rs \<Rightarrow> Some r)"
  by (induction as arbitrary: c)
     (auto simp: map_filter_simps attempt_result_def Connect_def Let_def
       split: option.splits sum.splits list.splits)

lemma map_filter_Nil: "List.map_filter f xs = [] \<longleftrightarrow> (\<forall>x \<in> set xs. f x = None)"
  by (auto simp: List.map_filter_def filter_empty_conv)

lemma map_filter_first:
  "List.map_filter f xs = r # rs \<Longrightarrow>
     \<exists>before a after. xs = before @ a # after \<and> (\<forall>b \<in> set before. f b = None) \<and> f a = Some r"
proof (induction xs)
  case (Cons x xs)
  show ?case
  proof (cases "f x")
    case None
    with Cons obtain before a after where "xs = before @ a # after" "\<forall>b \<in> set before. f b = None" "f a = Some r"
      by (auto simp: map_filter_simps)
    with None show ?thesis by (intro exI [of _ "x # before"]) auto
  next
    case (Some y)
    with Cons.prems have "f x = Some r" by (simp add: map_filter_simps)
    then show ?thesis by (intro exI [of _ "[]"]) auto
  qed
qed (simp add: map_filter_simps)

lemma connect_conns:
  "conns_closed c None \<Longrightarrow> connectAndFetchConfig addr as c = Some (r, d) \<Longrightarrow>
     conns_closed d (case r of Inl _ \<Rightarrow> None | Inr _ \<Rightarrow> cc_conn d)"
proof (induction as arbitrary: c)
  case (Cons a as)
  have closed: "conns_closed (snd (closeClient x (c\<lparr>cc_conn := Some k, cc_calls := cc_calls c @ [NewClient addr k]\<rparr>))) None"
    for x k using Cons.prems(1) by (auto simp: conns_closed_def closeClient_def)
  have used: "conns_closed (c\<lparr>cc_conn := Some k, cc_calls := cc_calls c @ [NewClient addr k]\<rparr>) (Some k)" for k
    using Cons.prems(1) by (auto simp: conns_closed_def)
  show ?case
    using Cons.prems Cons.IH [OF Cons.prems(1)] Cons.IH [OF closed] used closed
    by (auto simp: Connect_def Let_def split: option.splits sum.splits)
qed simp

text \<open>
  C38: Start-up ends with the first round that decides it. The loop returns exactly when some
  round fetches a configuration or finds the context done, and returns that round's
  configuration or error; rounds before it, whatever failed in them, only repeat. No
  connection leaks: when it returns, every connection that was opened has been closed, except
  the one that the returned configuration came from.
\<close>

theorem connectAndFetchConfig_correct:
  assumes "conns_closed c None"
  shows "case connectAndFetchConfig addr as c of
      None \<Rightarrow> (\<forall>a \<in> set as. attempt_result a = None)
    | Some (r, d) \<Rightarrow>
        (\<exists>before a after. as = before @ a # after \<and> (\<forall>b \<in> set before. attempt_result b = None) \<and>
           attempt_result a = Some r) \<and>
        conns_closed d (case r of Inl _ \<Rightarrow> None | Inr _ \<Rightarrow> cc_conn d)"
proof (cases "connectAndFetchConfig addr as c")
  case None
  then show ?thesis using connect_result [of addr as c] by (auto simp: map_filter_Nil split: list.splits)
next
  case (Some rd)
  obtain r d where rd: "rd = (r, d)" by (cases rd)
  with Some connect_result [of addr as c] obtain rs where "List.map_filter attempt_result as = r # rs"
    by (auto split: list.splits)
  from map_filter_first [OF this] Some rd connect_conns [OF assms, of addr as r d] show ?thesis by simp
qed

definition ex_attempts :: "attempt list" where
  "ex_attempts =
     [\<lparr>at_ctxErr = None, at_newClient = Inr 1, at_fetch = Inl ''unavailable'', at_close = None, at_waitErr = None\<rparr>,
      \<lparr>at_ctxErr = None, at_newClient = Inr 2, at_fetch = Inr None, at_close = None, at_waitErr = None\<rparr>]"

theorem connectAndFetchConfig_correct_witness:
  "\<exists>d. connectAndFetchConfig ''op'' ex_attempts NewConfigClient = Some (Inr None, d) \<and>
     conns_closed d (cc_conn d) \<and> cc_conn d = Some 2 \<and> CloseConn 1 \<in> set (cc_calls d)"
proof -
  have "conns_closed NewConfigClient None" by (simp add: conns_closed_def NewConfigClient_def)
  from connectAndFetchConfig_correct [OF this, where addr = "''op''" and as = ex_attempts] show ?thesis
    by (simp add: ex_attempts_def NewConfigClient_def Connect_def closeClient_def)
qed

section \<open>Acknowledging\<close>

text \<open>\<open>rpc\<close> is the remote call, on whatever state the other side has.\<close>

datatype ack_error = NilTunnelMapping | AckRpcFailed string

definition clientAck ::
  "(AckRequest option \<Rightarrow> 'w \<Rightarrow> (string + unit) \<times> 'w) \<Rightarrow> string \<Rightarrow> TunnelMapping option \<Rightarrow> 'w \<Rightarrow>
   (ack_error + unit) \<times> 'w" where
  "clientAck rpc forwarderID mapping w =
     (case mapping of
        None \<Rightarrow> (Inl NilTunnelMapping, w)
      | Some m \<Rightarrow>
          (case rpc (Some \<lparr>ar_ForwarderId = Some forwarderID, ar_TunnelName = tm_TunnelName m,
                      ar_TunnelNamespace = tm_TunnelNamespace m, ar_Revision = tm_Revision m\<rparr>) w of
             (Inl err, w1) \<Rightarrow> (Inl (AckRpcFailed err), w1)
           | (Inr _, w1) \<Rightarrow> (Inr (), w1)))"

section \<open>WatchUpdates\<close>

text \<open>Where the loop is; every state but the last waits for one answer from outside.\<close>

datatype watch_pc =
    AtLoop | Opening | Syncing | Fetching | Streaming | Waiting | WatchReturned string

datatype watch_event =
    CtxOk
  | CtxDone string
  | StreamOpened
  | StreamFailed string
  | Recvd "TunnelUpdate option"
  | RecvFailed string
  | Fetched "ForwarderConfig option"
  | FetchFailed string
  | BackoffElapsed

text \<open>The history of a run: a stream was opened, or a callback was called and how it ended.\<close>

datatype watch_call = Opened | SnapshotCall "ForwarderConfig option" bool | UpdateCall "TunnelUpdate option"

record 'u watcher =
  w_pc :: watch_pc
  w_backoff :: int
  w_user :: 'u
  w_calls :: "watch_call list"

definition watch_start :: "'u \<Rightarrow> 'u watcher" where
  "watch_start u = \<lparr>w_pc = AtLoop, w_backoff = second, w_user = u, w_calls = []\<rparr>"

fun WatchUpdates ::
  "(ForwarderConfig option \<Rightarrow> 'u \<Rightarrow> ('e + unit) \<times> 'u) \<Rightarrow>
   (TunnelUpdate option \<Rightarrow> 'u \<Rightarrow> ('e + unit) \<times> 'u) \<Rightarrow>
   watch_event \<Rightarrow> 'u watcher \<Rightarrow> 'u watcher option" where
  "WatchUpdates onSnapshot onUpdate e w =
     (case (w_pc w, e) of
        (AtLoop, CtxDone err) \<Rightarrow> Some (w\<lparr>w_pc := WatchReturned err\<rparr>)
      | (AtLoop, CtxOk) \<Rightarrow> Some (w\<lparr>w_pc := Opening\<rparr>)
      | (Opening, StreamFailed err) \<Rightarrow> Some (w\<lparr>w_pc := Waiting\<rparr>)
      | (Opening, StreamOpened) \<Rightarrow> Some (w\<lparr>w_pc := Syncing, w_calls := w_calls w @ [Opened]\<rparr>)
      | (Syncing, RecvFailed err) \<Rightarrow> Some (w\<lparr>w_pc := Waiting\<rparr>)
      | (Syncing, Recvd update) \<Rightarrow>
          Some (w\<lparr>w_pc := (if GetType update \<noteq> SYNC then Waiting else Fetching)\<rparr>)
      | (Fetching, FetchFailed err) \<Rightarrow> Some (w\<lparr>w_pc := Waiting\<rparr>)
      | (Fetching, Fetched config) \<Rightarrow>
          (case onSnapshot config (w_user w) of
             (Inl err, u) \<Rightarrow> Some (w\<lparr>w_pc := Waiting, w_user := u,
                                    w_calls := w_calls w @ [SnapshotCall config False]\<rparr>)
           | (Inr _, u) \<Rightarrow> Some (w\<lparr>w_pc := Streaming, w_user := u, w_backoff := second,
                                  w_calls := w_calls w @ [SnapshotCall config True]\<rparr>))
      | (Streaming, RecvFailed err) \<Rightarrow> Some (w\<lparr>w_pc := Waiting\<rparr>)
      | (Streaming, Recvd update) \<Rightarrow>
          Some (if GetType update = SYNC then w
                else w\<lparr>w_user := snd (onUpdate update (w_user w)),
                       w_calls := w_calls w @ [UpdateCall update]\<rparr>)
      | (Waiting, CtxDone err) \<Rightarrow> Some (w\<lparr>w_pc := WatchReturned err\<rparr>)
      | (Waiting, BackoffElapsed) \<Rightarrow>
          Some (w\<lparr>w_pc := AtLoop,
                  w_backoff := (if w_backoff w < 30 * second then i64 (w_backoff w * 2) else w_backoff w)\<rparr>)
      | _ \<Rightarrow> None)"

inductive watch_step ::
  "(ForwarderConfig option \<Rightarrow> 'u \<Rightarrow> ('e + unit) \<times> 'u) \<Rightarrow>
   (TunnelUpdate option \<Rightarrow> 'u \<Rightarrow> ('e + unit) \<times> 'u) \<Rightarrow> 'u watcher \<Rightarrow> 'u watcher \<Rightarrow> bool"
  for onSnapshot onUpdate where
  watch_step: "WatchUpdates onSnapshot onUpdate e w = Some w' \<Longrightarrow> watch_step onSnapshot onUpdate w w'"

definition watch_init :: "('u \<Rightarrow> bool) \<Rightarrow> 'u watcher \<Rightarrow> bool" where
  "watch_init P w \<longleftrightarrow> (\<exists>u. P u \<and> w = watch_start u)"

text \<open>
  Updates are only processed behind a successful snapshot of the same stream. The first
  argument says whether the calls so far end with one.
\<close>

fun calls_ordered :: "bool \<Rightarrow> watch_call list \<Rightarrow> bool" where
  "calls_ordered live [] = True"
| "calls_ordered live (Opened # cs) = calls_ordered False cs"
| "calls_ordered live (SnapshotCall config ok # cs) = calls_ordered ok cs"
| "calls_ordered live (UpdateCall update # cs) = (live \<and> calls_ordered live cs)"

fun live_after :: "bool \<Rightarrow> watch_call list \<Rightarrow> bool" where
  "live_after live [] = live"
| "live_after live (Opened # cs) = live_after False cs"
| "live_after live (SnapshotCall config ok # cs) = live_after ok cs"
| "live_after live (UpdateCall update # cs) = live_after live cs"

lemma calls_append [simp]:
  "calls_ordered live (cs @ ds) \<longleftrightarrow> calls_ordered live cs \<and> calls_ordered (live_after live cs) ds"
  "live_after live (cs @ ds) = live_after (live_after live cs) ds"
  by (induction live cs rule: live_after.induct) auto

definition backoffs :: "int set" where
  "backoffs = {second, 2 * second, 4 * second, 8 * second, 16 * second, 32 * second}"

definition watch_inv :: "'u watcher \<Rightarrow> bool" where
  "watch_inv w \<longleftrightarrow> calls_ordered False (w_calls w) \<and> w_backoff w \<in> backoffs \<and>
     (w_pc w = Streaming \<longrightarrow> live_after False (w_calls w))"

lemma watch_inv_start: "watch_inv (watch_start u)"
  by (simp add: watch_inv_def watch_start_def backoffs_def)

lemma backoff_next:
  "b \<in> backoffs \<Longrightarrow> (if b < 30 * second then i64 (b * 2) else b) \<in> backoffs"
  by (auto simp: backoffs_def second_def i64_def)

lemma second_in: "second \<in> backoffs" by (simp add: backoffs_def)

lemma watch_inv_step:
  "watch_inv w \<Longrightarrow> WatchUpdates onSnapshot onUpdate e w = Some w' \<Longrightarrow> watch_inv w'"
  using backoff_next [of "w_backoff w"]
  by (auto simp: watch_inv_def second_in
      split: watch_pc.splits watch_event.splits prod.splits sum.splits if_splits)

text \<open>
  The contract between the loop and its callbacks: an invariant of the caller's state, and a
  flag of it that a successful snapshot sets and nothing else changes.
\<close>

locale watch_callbacks =
  fixes onSnapshot :: "ForwarderConfig option \<Rightarrow> 'u \<Rightarrow> ('e + unit) \<times> 'u"
    and onUpdate :: "TunnelUpdate option \<Rightarrow> 'u \<Rightarrow> ('e + unit) \<times> 'u"
    and inv :: "'u \<Rightarrow> bool"
    and ready :: "'u \<Rightarrow> bool"
  assumes snapshot_inv: "inv u \<Longrightarrow> inv (snd (onSnapshot config u))"
    and update_inv: "inv u \<Longrightarrow> inv (snd (onUpdate update u))"
    and snapshot_ready: "onSnapshot config u = (Inr (), u') \<Longrightarrow> ready u'"
    and failed_ready: "onSnapshot config u = (Inl err, u') \<Longrightarrow> ready u' = ready u"
    and update_ready: "ready (snd (onUpdate update u)) = ready u"
begin

definition good :: "'u watcher \<Rightarrow> bool" where
  "good w \<longleftrightarrow> watch_inv w \<and> inv (w_user w) \<and>
     (ready (w_user w) \<longleftrightarrow> (\<exists>config. SnapshotCall config True \<in> set (w_calls w)))"

lemma good_snapshot:
  assumes "good w" "w_pc w = Fetching" "WatchUpdates onSnapshot onUpdate (Fetched config) w = Some w'"
  shows "good w'"
proof -
  obtain r u where r: "onSnapshot config (w_user w) = (r, u)" by force
  have "inv u" using snapshot_inv [of "w_user w" config] assms(1) r by (simp add: good_def)
  moreover have "watch_inv w'" using watch_inv_step [OF _ assms(3)] assms(1) by (simp add: good_def)
  ultimately show ?thesis
    using assms r snapshot_ready [of config "w_user w" u] failed_ready [of config "w_user w" _ u]
    by (cases r) (auto simp: good_def simp del: calls_append)
qed

lemma good_step:
  assumes g: "good w" and s: "WatchUpdates onSnapshot onUpdate e w = Some w'"
  shows "good w'"
proof (cases "\<exists>config. e = Fetched config")
  case True
  with s have "w_pc w = Fetching" by (auto split: watch_pc.splits)
  with True g s good_snapshot show ?thesis by blast
next
  case False
  have "watch_inv w'" using watch_inv_step [OF _ s] g by (simp add: good_def)
  with False g s show ?thesis
    by (auto simp: good_def update_inv update_ready
        split: watch_pc.splits watch_event.splits if_splits)
qed

lemma watch_good:
  assumes "reach (watch_init (\<lambda>u. inv u \<and> \<not> ready u)) (watch_step onSnapshot onUpdate) w"
  shows "good w"
  using assms
proof (induction rule: reach.induct)
  case (reach_init w)
  then show ?case by (auto simp: watch_init_def good_def watch_inv_start) (simp_all add: watch_start_def)
next
  case (reach_step w w')
  then show ?case using good_step by (blast elim: watch_step.cases)
qed

end

text \<open>Whatever the callbacks do, the loop keeps its own invariant.\<close>

lemma watch_reach_inv:
  "reach (watch_init P) (watch_step onSnapshot onUpdate) w \<Longrightarrow> watch_inv w"
proof (induction rule: reach.induct)
  case (reach_init w)
  then show ?case by (auto simp: watch_init_def watch_inv_start)
next
  case (reach_step w w')
  then show ?case using watch_inv_step by (blast elim: watch_step.cases)
qed

abbreviation watch_run ::
  "(ForwarderConfig option \<Rightarrow> 'u \<Rightarrow> ('e + unit) \<times> 'u) \<Rightarrow>
   (TunnelUpdate option \<Rightarrow> 'u \<Rightarrow> ('e + unit) \<times> 'u) \<Rightarrow>
   watch_event list \<Rightarrow> 'u watcher \<Rightarrow> 'u watcher option" where
  "watch_run onSnapshot onUpdate \<equiv> run_events (WatchUpdates onSnapshot onUpdate)"

lemma watch_run_reach: "reach init (watch_step f g) s \<Longrightarrow> watch_run f g es s = Some t \<Longrightarrow> reach init (watch_step f g) t"
  by (rule run_events_reach) (rule watch_step)

text \<open>
  C36: The update protocol holds in every run, whatever the server and the callbacks do: an
  update is only given to \<open>onUpdate\<close> after \<open>onSnapshot\<close> succeeded on the same stream, so that
  a forwarder never works on updates without their base. The delay between attempts is one of
  1, 2, 4, 8, 16 and 32 seconds, starting from 1 again after every accepted snapshot.
\<close>

theorem watch_protocol:
  assumes "reach (watch_init P) (watch_step onSnapshot onUpdate) w"
  shows "calls_ordered False (w_calls w) \<and> w_backoff w \<in> backoffs \<and>
    (\<forall>e w'. WatchUpdates onSnapshot onUpdate e w = Some w' \<longrightarrow>
       (w_pc w' = Streaming \<longrightarrow> w_pc w \<noteq> Streaming \<longrightarrow> w_backoff w' = second) \<and>
       (\<forall>err. w_pc w' = WatchReturned err \<longrightarrow> e = CtxDone err))"
proof -
  have "w_backoff w' = second" if "WatchUpdates onSnapshot onUpdate e w = Some w'" "w_pc w' = Streaming"
    "w_pc w \<noteq> Streaming" for e w'
    using that by (auto split: watch_pc.splits watch_event.splits prod.splits sum.splits if_splits)
  moreover have "e = CtxDone err" if "WatchUpdates onSnapshot onUpdate e w = Some w'"
    "w_pc w' = WatchReturned err" for e w' err
    using that by (auto split: watch_pc.splits watch_event.splits prod.splits sum.splits if_splits)
  ultimately show ?thesis using watch_reach_inv [OF assms] unfolding watch_inv_def by blast
qed

definition ex_sync :: "TunnelUpdate option" where
  "ex_sync = Some \<lparr>tu_Type = Some SYNC, tu_Tunnel = None\<rparr>"

definition ex_count :: "'a \<Rightarrow> nat \<Rightarrow> (string + unit) \<times> nat" where
  "ex_count x n = (Inr (), Suc n)"

definition ex_watch :: "nat watcher" where
  "ex_watch = \<lparr>w_pc = Streaming, w_backoff = second, w_user = 2,
     w_calls = [Opened, SnapshotCall None True, UpdateCall None]\<rparr>"

lemma ex_watch_run:
  "watch_run ex_count ex_count [CtxOk, StreamOpened, Recvd ex_sync, Fetched None, Recvd None]
     (watch_start 0) = Some ex_watch"
  by (simp add: watch_start_def ex_sync_def ex_count_def ex_watch_def GetType_def)

theorem watch_protocol_witness:
  "reach (watch_init (\<lambda>n. n = 0)) (watch_step ex_count ex_count) ex_watch \<and>
   calls_ordered False (w_calls ex_watch) \<and> UpdateCall None \<in> set (w_calls ex_watch) \<and>
   w_backoff ex_watch \<in> backoffs"
proof -
  have r: "reach (watch_init (\<lambda>n. n = 0)) (watch_step ex_count ex_count) ex_watch"
    by (rule watch_run_reach [OF reach_init ex_watch_run]) (simp add: watch_init_def)
  with watch_protocol [OF r] show ?thesis by (simp add: ex_watch_def)
qed

text \<open>What the loop needs to be given, from each of its states, to be streaming again.\<close>

definition recovery :: "ForwarderConfig option \<Rightarrow> watch_pc \<Rightarrow> watch_event list" where
  "recovery config pc =
     drop (case pc of Waiting \<Rightarrow> 0 | AtLoop \<Rightarrow> 1 | Opening \<Rightarrow> 2 | Syncing \<Rightarrow> 3 | Fetching \<Rightarrow> 4 | _ \<Rightarrow> 5)
       [BackoffElapsed, CtxOk, StreamOpened, Recvd ex_sync, Fetched config]"



end
