(* ===== verification/Forwarder_Main.thy ===== *)
theory Forwarder_Main
  imports Proxy_Props Config_Client Process_Env
begin

text \<open>
  The forwarder program, \<open>cmd/forwarder/main.go\<close>, with its health server,
  \<open>pkg/forwarder/health.go\<close>. It composes the configuration client, the UDP proxy and the
  health server. The operator's answer to an acknowledgement is an argument.
\<close>

section \<open>Health server\<close>

record HealthServer =
  hs_addr :: string
  hs_ready :: bool

definition NewHealthServer :: "string \<Rightarrow> HealthServer" where
  "NewHealthServer addr = \<lparr>hs_addr = addr, hs_ready = False\<rparr>"

definition SetReady :: "bool \<Rightarrow> HealthServer \<Rightarrow> HealthServer" where
  "SetReady b h = h\<lparr>hs_ready := b\<rparr>"

text \<open>A response is a status code and a body.\<close>

definition handleHealthz :: "HealthServer \<Rightarrow> int \<times> string" where
  "handleHealthz h = (200, ''ok'' @ [CHR 0x0A])"

definition handleReadyz :: "HealthServer \<Rightarrow> int \<times> string" where
  "handleReadyz h =
     (if \<not> hs_ready h then (503, ''not ready'' @ [CHR 0x0A]) else (200, ''ready'' @ [CHR 0x0A]))"

section \<open>Snapshots and updates\<close>

datatype fw_error =
    ReconcileFailed proxy_error
  | AckMappingFailed string string int ack_error
  | ApplyUpdateFailed int proxy_error
  | AckUpdateFailed int ack_error
  | InvalidLogLevel string
  | ConnectFailed string
  | WatchFailed string
  | StopFailed string

type_synonym 'w ack_rpc = "AckRequest option \<Rightarrow> 'w \<Rightarrow> (string + unit) \<times> 'w"

type_synonym bind_oracle = "nat \<Rightarrow> int \<Rightarrow> int option"

definition applyMappings ::
  "bind_oracle \<Rightarrow> TunnelMapping option list \<Rightarrow> UDPProxy \<Rightarrow> (fw_error + unit) \<times> UDPProxy" where
  "applyMappings os ms p =
     (case ReconcileMappings os ms p of
        (Inl e, p1) \<Rightarrow> (Inl (ReconcileFailed e), p1)
      | (Inr _, p1) \<Rightarrow> (Inr (), p1))"

text \<open>The body of the loop of \<open>applySnapshot\<close>.\<close>

definition ack_skipped :: "TunnelMapping option \<Rightarrow> bool" where
  "ack_skipped m \<longleftrightarrow> m = None \<or> GetForwarderPort m \<le> 0 \<or> TrimSpace (GetGatewayAddress m) = ''''"

definition ack_one ::
  "'w ack_rpc \<Rightarrow> string \<Rightarrow> TunnelMapping option \<Rightarrow> 'w \<Rightarrow> (fw_error + unit) \<times> 'w" where
  "ack_one rpc forwarderID m w =
     (if ack_skipped m then (Inr (), w)
      else case clientAck rpc forwarderID m w of
          (Inl e, w1) \<Rightarrow>
            (Inl (AckMappingFailed (GetTunnelNamespace m) (GetTunnelName m) (GetRevision m) e), w1)
        | (Inr _, w1) \<Rightarrow> (Inr (), w1))"

definition applySnapshot ::
  "bind_oracle \<Rightarrow> 'w ack_rpc \<Rightarrow> string \<Rightarrow> ForwarderConfig option \<Rightarrow> UDPProxy \<times> 'w \<Rightarrow>
   (fw_error + unit) \<times> UDPProxy \<times> 'w" where
  "applySnapshot os rpc forwarderID snapshot pw =
     (case pw of (p, w) \<Rightarrow>
        case applyMappings os (GetTunnels snapshot) p of
          (Inl e, p1) \<Rightarrow> (Inl e, p1, w)
        | (Inr _, p1) \<Rightarrow>
            (case for_each (ack_one rpc forwarderID) (GetTunnels snapshot) w of
               (r, w1) \<Rightarrow> (r, p1, w1)))"

definition handleUpdate ::
  "bind_oracle \<Rightarrow> 'w ack_rpc \<Rightarrow> string \<Rightarrow> TunnelUpdate option \<Rightarrow> UDPProxy \<times> 'w \<Rightarrow>
   (fw_error + unit) \<times> UDPProxy \<times> 'w" where
  "handleUpdate os rpc forwarderID update pw =
     (case pw of (p, w) \<Rightarrow>
        if update = None \<or> GetTunnel update = None then (Inr (), p, w)
        else
          (let mapping = GetTunnel update; port = GetForwarderPort mapping
           in if port \<le> 0 then (Inr (), p, w)
              else if GetType update = ADDED \<or> GetType update = MODIFIED then
                (if TrimSpace (GetGatewayAddress mapping) = '''' then (Inr (), p, w)
                 else case ApplyMapping os mapping p of
                     (Inl e, p1) \<Rightarrow> (Inl (ApplyUpdateFailed port e), p1, w)
                   | (Inr _, p1) \<Rightarrow>
                       (case clientAck rpc forwarderID mapping w of
                          (Inl e, w1) \<Rightarrow> (Inl (AckUpdateFailed port e), p1, w1)
                        | (Inr _, w1) \<Rightarrow> (Inr (), p1, w1)))
              else if GetType update = DELETED then (Inr (), RemoveMapping port p, w)
              else (Inr (), p, w)))"

section \<open>The program\<close>

record 'w forwarder =
  f_proxy :: UDPProxy
  f_health :: HealthServer
  f_net :: 'w

text \<open>The two callbacks that \<open>run\<close> gives to \<open>WatchUpdates\<close>.\<close>

definition onSnapshot ::
  "bind_oracle \<Rightarrow> 'w ack_rpc \<Rightarrow> string \<Rightarrow> ForwarderConfig option \<Rightarrow> 'w forwarder \<Rightarrow>
   (fw_error + unit) \<times> 'w forwarder" where
  "onSnapshot os rpc forwarderID snapshot f =
     (case applySnapshot os rpc forwarderID snapshot (f_proxy f, f_net f) of
        (Inl e, p, w) \<Rightarrow> (Inl e, f\<lparr>f_proxy := p, f_net := w\<rparr>)
      | (Inr _, p, w) \<Rightarrow>
          (Inr (), f\<lparr>f_proxy := p, f_net := w, f_health := SetReady True (f_health f)\<rparr>))"

definition onUpdate ::
  "bind_oracle \<Rightarrow> 'w ack_rpc \<Rightarrow> string \<Rightarrow> TunnelUpdate option \<Rightarrow> 'w forwarder \<Rightarrow>
   (fw_error + unit) \<times> 'w forwarder" where
  "onUpdate os rpc forwarderID update f =
     (case handleUpdate os rpc forwarderID update (f_proxy f, f_net f) of
        (r, p, w) \<Rightarrow> (r, f\<lparr>f_proxy := p, f_net := w\<rparr>))"

definition canceled :: string where "canceled = ''context canceled''"

definition drainForwarder :: "string option \<Rightarrow> 'w forwarder \<Rightarrow> (fw_error + unit) \<times> 'w forwarder" where
  "drainForwarder stopCtxErr f =
     (let f1 = f\<lparr>f_health := SetReady False (f_health f)\<rparr>
      in case Stop stopCtxErr (f_proxy f1) of
           (Some e, p) \<Rightarrow> (if e \<noteq> canceled then Inl (StopFailed e) else Inr (), f1\<lparr>f_proxy := p\<rparr>)
         | (None, p) \<Rightarrow> (Inr (), f1\<lparr>f_proxy := p\<rparr>))"

definition defaultHealthAddr :: string where "defaultHealthAddr = '':8085''"

definition proxyIdleTimeout :: int where "proxyIdleTimeout = 5 * 60 * second"

definition new_forwarder :: "environment \<Rightarrow> 'w \<Rightarrow> 'w forwarder" where
  "new_forwarder env w =
     (let lbVIP = TrimSpace (env ''LB_VIP''); p = NewUDPProxy proxyIdleTimeout
      in \<lparr>f_proxy = (if lbVIP \<noteq> '''' then SetVIP lbVIP p else p),
          f_health = NewHealthServer (envOrDefault env ''HEALTH_ADDR'' defaultHealthAddr),
          f_net = w\<rparr>)"

text \<open>The first configuration: the address of the load balancer if none is set, and the mappings.\<close>

definition adopt_config ::
  "bind_oracle \<Rightarrow> environment \<Rightarrow> ForwarderConfig option \<Rightarrow> 'w forwarder \<Rightarrow> (fw_error + unit) \<times> 'w forwarder" where
  "adopt_config os env config f =
     (let vip = TrimSpace (GetLbVip config);
          p = (if TrimSpace (env ''LB_VIP'') = '''' \<and> vip \<noteq> '''' then SetVIP vip (f_proxy f) else f_proxy f)
      in case applyMappings os (GetTunnels config) p of (r, p1) \<Rightarrow> (r, f\<lparr>f_proxy := p1\<rparr>))"

text \<open>
  One run of the program: \<open>attempts\<close> and \<open>events\<close> are what it meets while it connects and
  watches, \<open>sigterm\<close> whether the context ends it then. \<open>Exited\<close> is \<open>os.Exit\<close>, \<open>Running\<close> a run that
  goes on. The drain happens after the given events; a callback that is still at work while
  the program drains is not modelled.
\<close>

datatype 'w run_outcome =
    Exited
  | Running "'w forwarder"
  | Returned "fw_error + unit" "'w forwarder option" ConfigClient

definition drain_outcome ::
  "string option \<Rightarrow> string option \<Rightarrow> ConfigClient \<Rightarrow> 'w forwarder \<Rightarrow> 'w run_outcome" where
  "drain_outcome stopCtxErr closeErr c f =
     (case drainForwarder stopCtxErr f of
        (r, f1) \<Rightarrow> Returned r (Some f1) (snd (closeClient closeErr c)))"

text \<open>The watching part of \<open>run\<close>, on a connected client and an initialised forwarder.\<close>

definition run_watch ::
  "bind_oracle \<Rightarrow> 'w ack_rpc \<Rightarrow> string \<Rightarrow> watch_event list \<Rightarrow> bool \<Rightarrow> string option \<Rightarrow> string option \<Rightarrow>
   ConfigClient \<Rightarrow> 'w forwarder \<Rightarrow> 'w run_outcome" where
  "run_watch os rpc forwarderID events sigterm stopCtxErr closeErr c f =
     (case watch_run (onSnapshot os rpc forwarderID) (onUpdate os rpc forwarderID) events (watch_start f) of
        None \<Rightarrow> Running f
      | Some wt \<Rightarrow>
          if sigterm then drain_outcome stopCtxErr closeErr c (w_user wt)
          else (case w_pc wt of
              WatchReturned err \<Rightarrow>
                if err \<noteq> canceled
                then Returned (Inl (WatchFailed err)) (Some (w_user wt)) (snd (closeClient closeErr c))
                else drain_outcome stopCtxErr closeErr c (w_user wt)
            | _ \<Rightarrow> Running (w_user wt)))"

definition run ::
  "environment \<Rightarrow> string + string \<Rightarrow> bind_oracle \<Rightarrow> 'w ack_rpc \<Rightarrow> attempt list \<Rightarrow> watch_event list \<Rightarrow> bool \<Rightarrow>
   string option \<Rightarrow> string option \<Rightarrow> 'w \<Rightarrow> 'w run_outcome" where
  "run env hostname os rpc attempts events sigterm stopCtxErr closeErr w =
     (let level = TrimSpace (env ''LOG_LEVEL'')
      in case (if level = '''' then None else snd (parseLogLevel_forwarder level)) of
           Some err \<Rightarrow> Returned (Inl (InvalidLogLevel err)) None NewConfigClient
         | None \<Rightarrow>
             (case requireEnv env ''OPERATOR_GRPC_ADDR'' of
                None \<Rightarrow> Exited
              | Some operatorAddr \<Rightarrow>
                  (let f = new_forwarder env w; forwarderID = forwarderIdentity env hostname
                   in case connectAndFetchConfig operatorAddr attempts NewConfigClient of
                        None \<Rightarrow> Running f
                      | Some (Inl err, c) \<Rightarrow>
                          if err = canceled then drain_outcome stopCtxErr closeErr c f
                          else Returned (Inl (ConnectFailed err)) (Some f) (snd (closeClient closeErr c))
                      | Some (Inr config, c) \<Rightarrow>
                          (case adopt_config os env config f of
                             (Inl e, f1) \<Rightarrow> Returned (Inl e) (Some f1) (snd (closeClient closeErr c))
                           | (Inr _, f1) \<Rightarrow>
                               run_watch os rpc forwarderID events sigterm stopCtxErr closeErr c f1))))"

section \<open>What is acknowledged\<close>

text \<open>
  A proxy serves a mapping if its port has that mapping, or a newer one of the same tunnel.
\<close>

definition serves :: "UDPProxy \<Rightarrow> TunnelMapping option \<Rightarrow> bool" where
  "serves p m \<longleftrightarrow> (\<exists>rt. routes p (GetForwarderPort m) = Some rt \<and>
     (rt = mapping_route m \<or> same_tunnel rt (mapping_route m) \<and> GetRevision m < rt_revision rt))"

lemma serves_newer:
  "routes p (GetForwarderPort m) = Some (newer (mapping_route m) old) \<Longrightarrow> serves p m"
  by (auto simp: serves_def newer_def mapping_route_def split: option.splits)

text \<open>The remote call with a record of the requests made.\<close>

definition logged :: "'w ack_rpc \<Rightarrow> ('w \<times> AckRequest option list) ack_rpc" where
  "logged rpc req wl = (case rpc req (fst wl) of (r, w) \<Rightarrow> (r, w, snd wl @ [req]))"

definition mapping_ack :: "string \<Rightarrow> TunnelMapping option \<Rightarrow> AckRequest option" where
  "mapping_ack forwarderID mapping =
     map_option (\<lambda>m. \<lparr>ar_ForwarderId = Some forwarderID, ar_TunnelName = tm_TunnelName m,
       ar_TunnelNamespace = tm_TunnelNamespace m, ar_Revision = tm_Revision m\<rparr>) mapping"

lemma clientAck_logged:
  "clientAck (logged rpc) forwarderID m (w, l) = (r, w', l') \<Longrightarrow> m \<noteq> None \<Longrightarrow>
     l' = l @ [mapping_ack forwarderID m]"
  by (auto simp: clientAck_def logged_def mapping_ack_def split: prod.splits sum.splits)

lemma ack_skipped_invalid: "\<not> ack_skipped m \<Longrightarrow> \<not> invalid_mapping m"
  by (auto simp: ack_skipped_def invalid_mapping_def)

lemma ack_one_cases:
  "ack_skipped m \<Longrightarrow> ack_one rpc forwarderID m w = (Inr (), w)"
  "\<not> ack_skipped m \<Longrightarrow> clientAck rpc forwarderID m w = (Inr u, w1) \<Longrightarrow>
     ack_one rpc forwarderID m w = (Inr (), w1)"
  "\<not> ack_skipped m \<Longrightarrow> clientAck rpc forwarderID m w = (Inl e, w1) \<Longrightarrow>
     ack_one rpc forwarderID m w =
       (Inl (AckMappingFailed (GetTunnelNamespace m) (GetTunnelName m) (GetRevision m) e), w1)"
  by (simp_all add: ack_one_def)

lemma ack_loop_logged:
  "for_each (ack_one (logged rpc) forwarderID) ms (w, l) = (r, w', l') \<Longrightarrow>
     \<exists>n. l' = l @ map (mapping_ack forwarderID) (take n (filter (\<lambda>m. \<not> ack_skipped m) ms)) \<and>
       (r = Inr () \<longrightarrow> n = length (filter (\<lambda>m. \<not> ack_skipped m) ms))"
proof (induction ms arbitrary: w l)
  case (Cons m ms)
  show ?case
  proof (cases "ack_skipped m")
    case True
    then have "for_each (ack_one (logged rpc) forwarderID) ms (w, l) = (r, w', l')"
      using Cons.prems by (simp add: ack_one_cases)
    from Cons.IH [OF this] True show ?thesis by simp
  next
    case False
    then have m: "m \<noteq> None" by (simp add: ack_skipped_def)
    obtain a w1 l1 where a: "clientAck (logged rpc) forwarderID m (w, l) = (a, w1, l1)"
      by (metis prod_cases3)
    have l1: "l1 = l @ [mapping_ack forwarderID m]" by (rule clientAck_logged [OF a m])
    show ?thesis
    proof (cases a)
      case (Inl e)
      then have "r \<noteq> Inr () \<and> l' = l1" using Cons.prems False a by (auto simp: ack_one_cases)
      then show ?thesis using False l1 by (intro exI [of _ 1]) auto
    next
      case (Inr u)
      then have "for_each (ack_one (logged rpc) forwarderID) ms (w1, l1) = (r, w', l')"
        using Cons.prems False a by (simp add: ack_one_cases)
      from Cons.IH [OF this] obtain n where
        "l' = l1 @ map (mapping_ack forwarderID) (take n (filter (\<lambda>m. \<not> ack_skipped m) ms))"
        "r = Inr () \<longrightarrow> n = length (filter (\<lambda>m. \<not> ack_skipped m) ms)" by blast
      with False l1 show ?thesis by (intro exI [of _ "Suc n"]) auto
    qed
  qed
qed simp

text \<open>The same for any remote call: the requests that reach it, in order.\<close>

lemma clientAck_world:
  "m \<noteq> None \<Longrightarrow> snd (clientAck rpc forwarderID m w) = snd (rpc (mapping_ack forwarderID m) w)"
  by (auto simp: clientAck_def mapping_ack_def split: prod.split sum.split)

lemma ack_loop_world:
  "\<exists>n. snd (for_each (ack_one rpc forwarderID) ms w) =
     fold (\<lambda>m w. snd (rpc (mapping_ack forwarderID m) w)) (take n (filter (\<lambda>m. \<not> ack_skipped m) ms)) w"
proof (induction ms arbitrary: w)
  case (Cons m ms)
  show ?case
  proof (cases "ack_skipped m")
    case True
    with Cons show ?thesis by (simp add: ack_one_cases)
  next
    case False
    then have m: "m \<noteq> None" by (simp add: ack_skipped_def)
    obtain a w1 where a: "clientAck rpc forwarderID m w = (a, w1)" by force
    then have w1: "w1 = snd (rpc (mapping_ack forwarderID m) w)" using clientAck_world [OF m, of rpc forwarderID w] by simp
    show ?thesis
    proof (cases a)
      case (Inl e)
      then show ?thesis using False a w1 by (intro exI [of _ 1]) (simp add: ack_one_cases)
    next
      case (Inr u)
      obtain n where "snd (for_each (ack_one rpc forwarderID) ms w1) =
          fold (\<lambda>m w. snd (rpc (mapping_ack forwarderID m) w)) (take n (filter (\<lambda>m. \<not> ack_skipped m) ms)) w1"
        using Cons by blast
      then show ?thesis using False a w1 Inr by (intro exI [of _ "Suc n"]) (simp add: ack_one_cases)
    qed
  qed
qed simp

lemma applyMappings_iff:
  "applyMappings os ms p = (Inr (), q) \<longleftrightarrow> ReconcileMappings os ms p = (Inr (), q)"
  "applyMappings os ms p = (Inl e, q) \<longleftrightarrow>
     (\<exists>e'. e = ReconcileFailed e' \<and> ReconcileMappings os ms p = (Inl e', q))"
  by (auto simp: applyMappings_def split: prod.splits sum.splits)

lemma snapshot_serves:
  assumes "proxy_inv p" "ReconcileMappings os ms p = (Inr (), q)" "distinct (desired_ports ms)"
    and "m \<in> set ms" "\<not> invalid_mapping m"
  shows "serves q m"
proof (rule serves_newer)
  show "routes q (GetForwarderPort m) = Some (newer (mapping_route m) (routes p (GetForwarderPort m)))"
    using ReconcileMappings_view [OF assms(1,2)] upsert_fold_distinct [OF assms(3-5), of "routes p"] assms(4,5)
    by (auto simp: restrict_map_def desired_ports_def)
qed

lemma handleUpdate_valid:
  assumes "GetTunnel update = Some m" "0 < GetForwarderPort (Some m)"
  shows "handleUpdate os rpc forwarderID update (p, w) =
    (if GetType update = ADDED \<or> GetType update = MODIFIED then
       (if TrimSpace (GetGatewayAddress (Some m)) = '''' then (Inr (), p, w)
        else case ApplyMapping os (Some m) p of
            (Inl e, p1) \<Rightarrow> (Inl (ApplyUpdateFailed (GetForwarderPort (Some m)) e), p1, w)
          | (Inr _, p1) \<Rightarrow>
              (case clientAck rpc forwarderID (Some m) w of
                 (Inl e, w1) \<Rightarrow> (Inl (AckUpdateFailed (GetForwarderPort (Some m)) e), p1, w1)
               | (Inr _, w1) \<Rightarrow> (Inr (), p1, w1)))
     else if GetType update = DELETED then (Inr (), RemoveMapping (GetForwarderPort (Some m)) p, w)
     else (Inr (), p, w))"
proof -
  obtain u where "update = Some u" using assms(1) by (cases update) (simp_all add: GetTunnel_def)
  then show ?thesis using assms by (simp add: handleUpdate_def Let_def)
qed

lemma handleUpdate_ignored:
  assumes "GetTunnel update = None \<or> GetForwarderPort (GetTunnel update) \<le> 0"
  shows "handleUpdate os rpc forwarderID update (p, w) = (Inr (), p, w)"
  using assms by (auto simp: handleUpdate_def Let_def)

lemma apply_serves:
  assumes "proxy_inv p" "ApplyMapping os m p = (Inr (), q)"
  shows "serves q m"
  using proxy_table.apply_ok [OF assms]
  by (intro serves_newer [of _ _ "routes p (GetForwarderPort m)"]) (auto simp: upsert_mapping_def upsert_def)

lemma apply_refused:
  assumes "proxy_inv p" "ApplyMapping os m p = (Inl e, q)" "\<not> invalid_mapping m"
  shows "e = ListenFailed (GetForwarderPort m)" "routes q = (routes p)(GetForwarderPort m := None)"
  using assms(2,3) addMapping_spec(4) [OF assms(1), of os "GetForwarderPort m" "GetGatewayAddress m"
      "GetTunnelName m" "GetTunnelNamespace m" "GetRevision m" "Inl e" q]
  by (auto simp: ApplyMapping_def)


text \<open>What an update and a snapshot do to the other end of the remote call.\<close>

lemma handleUpdate_world:
  assumes "proxy_inv p" "handleUpdate os rpc forwarderID update (p, w) = (r, q, w')"
  shows "proxy_inv q \<and> (w' = w \<or> GetTunnel update \<noteq> None \<and> serves q (GetTunnel update) \<and>
    w' = snd (rpc (mapping_ack forwarderID (GetTunnel update)) w))"
proof (cases "GetTunnel update = None \<or> GetForwarderPort (GetTunnel update) \<le> 0")
  case True
  with assms show ?thesis by (simp add: handleUpdate_ignored)
next
  case False
  then obtain m where m: "GetTunnel update = Some m" "0 < GetForwarderPort (Some m)" by auto
  note h = assms(2) [unfolded handleUpdate_valid [OF m]]
  obtain a p1 where a: "ApplyMapping os (Some m) p = (a, p1)" by force
  have p1: "proxy_inv p1" by (rule proxy_table.apply_any_inv [OF assms(1) a])
  obtain b w1 where b: "clientAck rpc forwarderID (Some m) w = (b, w1)" by force
  have w1: "w1 = snd (rpc (mapping_ack forwarderID (Some m)) w)"
    using clientAck_world [of "Some m" rpc forwarderID w] b by simp
  consider "(q, w') = (p, w)" | "q = RemoveMapping (GetForwarderPort (Some m)) p" "w' = w"
    | "(q, w') = (p1, w)" | "a = Inr ()" "q = p1" "w' = w1"
    using h a b by (cases a; cases b) (auto split: if_splits)
  then show ?thesis
  proof cases
    case 4
    with apply_serves [OF assms(1)] a p1 w1 m(1) show ?thesis by simp
  qed (use assms(1) p1 RemoveMapping_inv in auto)
qed

lemma applySnapshot_world:
  assumes "proxy_inv p" "distinct (desired_ports (GetTunnels snapshot))"
    and "applySnapshot os rpc forwarderID snapshot (p, w) = (r, q, w')"
  shows "proxy_inv q \<and> (\<exists>ms. (\<forall>m \<in> set ms. m \<noteq> None \<and> serves q m) \<and>
    w' = fold (\<lambda>m w. snd (rpc (mapping_ack forwarderID m) w)) ms w)"
proof -
  let ?ms = "GetTunnels snapshot"
  obtain a p1 where a: "applyMappings os ?ms p = (a, p1)" by force
  show ?thesis
  proof (cases a)
    case (Inl e)
    with a assms(3) have "q = p1" "w' = w" by (simp_all add: applySnapshot_def)
    moreover obtain e' where "ReconcileMappings os ?ms p = (Inl e', p1)"
      using a Inl by (auto simp: applyMappings_iff)
    ultimately show ?thesis using ReconcileMappings_inv [OF assms(1)] by (auto intro!: exI [of _ "[]"])
  next
    case (Inr u)
    then have rec: "ReconcileMappings os ?ms p = (Inr (), p1)" using a by (simp add: applyMappings_iff)
    have f: "w' = snd (for_each (ack_one rpc forwarderID) ?ms w)" "q = p1"
      using a Inr assms(3) by (auto simp: applySnapshot_def split: prod.splits)
    obtain n where n: "w' = fold (\<lambda>m w. snd (rpc (mapping_ack forwarderID m) w))
        (take n (filter (\<lambda>m. \<not> ack_skipped m) ?ms)) w"
      using ack_loop_world f(1) by metis
    have "m \<noteq> None \<and> serves q m" if "m \<in> set (take n (filter (\<lambda>m. \<not> ack_skipped m) ?ms))" for m
    proof -
      have "m \<in> set ?ms" "\<not> ack_skipped m" using that by (auto dest: in_set_takeD)
      then show ?thesis
        using snapshot_serves [OF assms(1) rec assms(2)] ack_skipped_invalid f(2) by (auto simp: ack_skipped_def)
    qed
    then show ?thesis using ReconcileMappings_inv [OF assms(1) rec] f(2) n by blast
  qed
qed

definition ex_rpc :: "unit ack_rpc" where "ex_rpc req w = (Inr (), w)"

definition ex_added :: "TunnelUpdate option" where
  "ex_added = Some \<lparr>tu_Type = Some ADDED, tu_Tunnel = ex_mapping1 ''b'' 6 ''g2'' 1\<rparr>"



definition ex_config :: "ForwarderConfig option" where
  "ex_config = Some \<lparr>fc_LbVip = None, fc_Tunnels = [ex_mapping1 ''b'' 6 ''g2'' 1]\<rparr>"


text \<open>
  A removal is not compared with the mapping it removes: whichever tunnel and revision the
  port has, it is gone, and the removal counts as handled.
\<close>

lemma late_removal:
  assumes "proxy_inv p" "GetType update = DELETED" "GetTunnel update = Some m" "0 < GetForwarderPort (Some m)"
  shows "\<exists>q. handleUpdate os rpc forwarderID update (p, w) = (Inr (), q, w) \<and>
    routes q = (routes p)(GetForwarderPort (Some m) := None)"
  using handleUpdate_valid [OF assms(3,4), of os rpc forwarderID p w] assms(2) RemoveMapping_routes [OF assms(1)] by simp

text \<open>A snapshot that has one port for two tunnels is acknowledged for both, but serves the last one.\<close>

lemma duplicate_port_acked:
  "\<exists>q w'. applySnapshot ex_os (logged ex_rpc) ''f1''
       (Some \<lparr>fc_LbVip = None, fc_Tunnels = [ex_mapping1 ''a'' 5 ''g1'' 1, ex_mapping1 ''b'' 5 ''g2'' 1]\<rparr>)
       (NewUDPProxy 60, (), []) =
     (Inr (), q, w', [mapping_ack ''f1'' (ex_mapping1 ''a'' 5 ''g1'' 1), mapping_ack ''f1'' (ex_mapping1 ''b'' 5 ''g2'' 1)]) \<and>
   routes q 5 = Some (mapping_route (ex_mapping1 ''b'' 5 ''g2'' 1))"
proof -
  let ?s = "Some \<lparr>fc_LbVip = None, fc_Tunnels = [ex_mapping1 ''a'' 5 ''g1'' 1, ex_mapping1 ''b'' 5 ''g2'' 1]\<rparr>"
  obtain r q w' l where h: "applySnapshot ex_os (logged ex_rpc) ''f1'' ?s (NewUDPProxy 60, (), []) = (r, q, w', l)"
    by (metis prod_cases4)
  have "(\<lambda>(r, q, w, l). (r, routes q 5, l)) (applySnapshot ex_os (logged ex_rpc) ''f1'' ?s (NewUDPProxy 60, (), [])) =
     (Inr (), Some (mapping_route (ex_mapping1 ''b'' 5 ''g2'' 1)),
      [mapping_ack ''f1'' (ex_mapping1 ''a'' 5 ''g1'' 1), mapping_ack ''f1'' (ex_mapping1 ''b'' 5 ''g2'' 1)])" by code_simp
  with h show ?thesis by simp
qed

section \<open>Readiness\<close>

lemma handleUpdate_inv:
  assumes "proxy_inv p"
  shows "proxy_inv (fst (snd (handleUpdate os rpc forwarderID update (p, w))))"
proof -
  have "proxy_inv q" if "ApplyMapping os m p = (a, q)" for m a q
    using proxy_table.apply_any_inv [OF assms that] .
  with RemoveMapping_inv [OF assms] assms show ?thesis
    by (auto simp: handleUpdate_def Let_def split: prod.splits sum.splits)
qed

lemma applySnapshot_inv:
  assumes "proxy_inv p"
  shows "proxy_inv (fst (snd (applySnapshot os rpc forwarderID snapshot (p, w))))"
  using ReconcileMappings_inv [OF assms]
  by (auto simp: applySnapshot_def applyMappings_def split: prod.splits sum.splits)

interpretation fw_watch: watch_callbacks "onSnapshot os rpc forwarderID" "onUpdate os rpc forwarderID"
  "\<lambda>f. proxy_inv (f_proxy f)" "\<lambda>f. hs_ready (f_health f)"
proof (unfold_locales, goal_cases)
  case (1 f config)
  then show ?case
    using applySnapshot_inv [OF 1, of os rpc forwarderID config "f_net f"]
    by (auto simp: onSnapshot_def split: prod.splits sum.splits)
next
  case (2 f update)
  then show ?case
    using handleUpdate_inv [OF 2, of os rpc forwarderID update "f_net f"]
    by (auto simp: onUpdate_def split: prod.splits)
qed (auto simp: onSnapshot_def onUpdate_def SetReady_def split: prod.splits sum.splits)

definition fw_init :: "'w forwarder \<Rightarrow> bool" where
  "fw_init f \<longleftrightarrow> proxy_inv (f_proxy f) \<and> \<not> hs_ready (f_health f)"

text \<open>
  C34: The forwarder reports itself ready exactly when it has had a snapshot that it could
  apply and acknowledge completely. While it watches for updates, in every reachable state,
  the readiness endpoint answers 200 if and only if such a snapshot was processed in this run,
  and 503 otherwise; the proxy's invariant holds throughout.
\<close>

theorem forwarder_ready:
  assumes "reach (watch_init fw_init) (watch_step (onSnapshot os rpc forwarderID) (onUpdate os rpc forwarderID)) wt"
  shows "proxy_inv (f_proxy (w_user wt)) \<and>
    fst (handleReadyz (f_health (w_user wt))) =
      (if \<exists>config. SnapshotCall config True \<in> set (w_calls wt) then 200 else 503)"
proof -
  have "fw_watch.good wt"
    by (rule fw_watch.watch_good) (use assms in \<open>simp add: fw_init_def [abs_def]\<close>)
  then show ?thesis unfolding fw_watch.good_def by (simp add: handleReadyz_def)
qed

lemma new_forwarder_init: "fw_init (new_forwarder env w)"
  using NewUDPProxy_inv [of proxyIdleTimeout]
  by (simp add: fw_init_def new_forwarder_def NewHealthServer_def SetVIP_def proxy_inv_def Let_def)

definition ex_events :: "watch_event list" where
  "ex_events = [CtxOk, StreamOpened, Recvd ex_sync, Fetched ex_config]"

theorem forwarder_ready_witness:
  "\<exists>wt. watch_run (onSnapshot ex_os ex_rpc ''f1'') (onUpdate ex_os ex_rpc ''f1'') ex_events
       (watch_start (new_forwarder (\<lambda>_. '''') ())) = Some wt \<and>
     reach (watch_init fw_init) (watch_step (onSnapshot ex_os ex_rpc ''f1'') (onUpdate ex_os ex_rpc ''f1'')) wt \<and>
     fst (handleReadyz (f_health (w_user wt))) = 200"
proof -
  let ?s = "onSnapshot ex_os ex_rpc ''f1''" and ?u = "onUpdate ex_os ex_rpc ''f1''"
  let ?f = "new_forwarder (\<lambda>_. '''') ()"
  have "map_option w_calls (watch_run ?s ?u ex_events (watch_start ?f)) = Some [Opened, SnapshotCall ex_config True]"
    by code_simp
  then obtain wt where wt: "watch_run ?s ?u ex_events (watch_start ?f) = Some wt"
      "w_calls wt = [Opened, SnapshotCall ex_config True]" by auto
  have r: "reach (watch_init fw_init) (watch_step ?s ?u) wt"
    by (rule watch_run_reach [OF reach_init wt(1)])
       (unfold watch_init_def, blast intro: new_forwarder_init)
  from forwarder_ready [OF r] wt r show ?thesis by auto
qed

section \<open>A whole run\<close>

lemma proxy_inv_vip: "proxy_inv (SetVIP v p) \<longleftrightarrow> proxy_inv p"
  by (simp add: proxy_inv_def SetVIP_def)

lemma adopt_config_init:
  assumes "fw_init f" "adopt_config os env config f = (r, f1)"
  shows "fw_init f1"
proof -
  let ?v = "TrimSpace (GetLbVip config)"
  let ?p = "if TrimSpace (env ''LB_VIP'') = '''' \<and> ?v \<noteq> '''' then SetVIP ?v (f_proxy f) else f_proxy f"
  obtain p1 where p1: "applyMappings os (GetTunnels config) ?p = (r, p1)" "f1 = f\<lparr>f_proxy := p1\<rparr>"
    using assms(2) by (auto simp: adopt_config_def Let_def split: prod.splits)
  have "proxy_inv ?p" using assms(1) by (auto simp: fw_init_def proxy_inv_vip)
  then have "proxy_inv p1"
    using p1(1) ReconcileMappings_inv by (auto simp: applyMappings_def split: prod.splits sum.splits)
  with p1(2) assms(1) show ?thesis by (simp add: fw_init_def)
qed

lemma watch_run_proxy:
  assumes "fw_init f" "watch_run (onSnapshot os rpc forwarderID) (onUpdate os rpc forwarderID) es (watch_start f) = Some wt"
  shows "proxy_inv (f_proxy (w_user wt))"
proof -
  have "watch_init (\<lambda>f. proxy_inv (f_proxy f) \<and> \<not> hs_ready (f_health f)) (watch_start f)"
    using assms(1) by (auto simp: watch_init_def fw_init_def)
  then have "reach (watch_init (\<lambda>f. proxy_inv (f_proxy f) \<and> \<not> hs_ready (f_health f)))
      (watch_step (onSnapshot os rpc forwarderID) (onUpdate os rpc forwarderID)) (watch_start f)"
    by (rule reach_init)
  from fw_watch.watch_good [OF watch_run_reach [OF this assms(2)]]
  show ?thesis by (simp add: fw_watch.good_def)
qed

text \<open>All that is left of the proxy is closed.\<close>

definition all_closed :: "UDPProxy \<Rightarrow> bool" where
  "all_closed p \<longleftrightarrow> Ports p = [] \<and> list_all (\<lambda>(r, l). \<not> pl_connOpen l \<and> pl_cancelled l) (px_listeners p)"

lemma Close_closes:
  assumes "proxy_inv p"
  shows "all_closed (Close p)"
proof -
  have inv: "proxy_inv (Close p)" unfolding Close_def by (rule proxy_table.remove_list_inv [OF assms])
  have "routes (Close p) = Map.empty"
    unfolding Close_def proxy_table.remove_list_view [OF assms]
    using proxy_table.ports_view [OF assms] by (auto simp: fun_eq_iff)
  then have "set (Ports (Close p)) = {}" using proxy_table.ports_view [OF inv] by simp
  then have m: "mappings (Close p) = []" by (simp add: Ports_def)
  have "\<not> pl_connOpen l \<and> pl_cancelled l" if "(r, l) \<in> set (px_listeners (Close p))" for r l
  proof -
    have t: "table_inv (gm_get (mappings (Close p))) (gm_get (px_listeners (Close p))) (nextListener (Close p))"
      and ok: "gm_ok (px_listeners (Close p))" using inv by (simp_all add: proxy_inv_def)
    have "gm_get (px_listeners (Close p)) r = Some l" using that unfolding gm_mem_iff [OF ok] .
    from table_invD(3,4) [OF t this] m show ?thesis by auto
  qed
  with m show ?thesis by (auto simp: all_closed_def list_all_iff Ports_def)
qed

lemma closeClient_conns:
  "conns_closed c (cc_conn c) \<Longrightarrow> conns_closed (snd (closeClient x c)) None"
  "conns_closed c None \<Longrightarrow> conns_closed (snd (closeClient x c)) None"
  by (cases "cc_conn c"; fastforce simp: conns_closed_def closeClient_def)+

lemma drain_outcome_closed:
  assumes "proxy_inv (f_proxy f)" "conns_closed c (cc_conn c) \<or> conns_closed c None"
    and "drain_outcome None closeErr c f = Returned r (Some f1) c1"
  shows "conns_closed c1 None \<and> r = Inr () \<and> \<not> hs_ready (f_health f1) \<and> all_closed (f_proxy f1)"
  using assms Close_closes [OF assms(1)] closeClient_conns [of c closeErr]
  by (auto simp: drain_outcome_def drainForwarder_def Stop_def SetReady_def Let_def)

definition well_ended :: "fw_error + unit \<Rightarrow> 'w forwarder \<Rightarrow> ConfigClient \<Rightarrow> bool" where
  "well_ended r f c \<longleftrightarrow> conns_closed c None \<and>
     (r = Inr () \<longrightarrow> \<not> hs_ready (f_health f) \<and> all_closed (f_proxy f))"

lemma drain_well_ended:
  assumes "drain_outcome None closeErr c f = Returned r (Some f1) c1" "proxy_inv (f_proxy f)"
    "conns_closed c (cc_conn c) \<or> conns_closed c None"
  shows "well_ended r f1 c1"
  using drain_outcome_closed [OF assms(2,3,1)] by (simp add: well_ended_def)

lemma run_watch_well_ended:
  assumes "run_watch os rpc forwarderID events sigterm None closeErr c f = Returned r (Some f1) c1"
    "fw_init f" "conns_closed c (cc_conn c)"
  shows "well_ended r f1 c1"
proof -
  obtain wt where wt: "watch_run (onSnapshot os rpc forwarderID) (onUpdate os rpc forwarderID) events
      (watch_start f) = Some wt"
    using assms(1) by (auto simp: run_watch_def split: option.splits)
  consider "drain_outcome None closeErr c (w_user wt) = Returned r (Some f1) c1"
    | err where "r = Inl (WatchFailed err)" "c1 = snd (closeClient closeErr c)"
    using assms(1) wt by (auto simp: run_watch_def split: if_splits watch_pc.splits)
  then show ?thesis
  proof cases
    case 1
    then show ?thesis using drain_well_ended watch_run_proxy [OF assms(2) wt] assms(3) by blast
  next
    case 2
    then show ?thesis using closeClient_conns(1) [OF assms(3)] by (simp add: well_ended_def)
  qed
qed


definition ex_env :: environment where
  "ex_env key = (if key = ''OPERATOR_GRPC_ADDR'' then '' op '' else '''')"

definition ex_outcome :: "unit run_outcome" where
  "ex_outcome = run ex_env (Inr ''pod-1'') ex_os ex_rpc ex_attempts ex_events True None None ()"


end
