(* ===== verification/Wireguard.thy ===== *)
theory Wireguard
  imports Go_Strings "HOL-Library.Word"
begin

unbundle bit_operations_syntax

text \<open>
  The WireGuard device of a gateway, \<open>pkg/wireguard/wireguard.go\<close>: the addresses of the
  tunnel, the configuration text that is handed to wireguard-go, and the creation of a device
  with every error path. wireguard-go and the gVisor network stack are outside the sources:
  what they answer are arguments, and the calls made to them are recorded.
\<close>

section \<open>Constants\<close>

definition TunnelIPClient :: string where "TunnelIPClient = ''10.0.0.1/30''"

definition TunnelIPGateway :: string where "TunnelIPGateway = ''10.0.0.2/30''"

definition PersistentKeepalive :: int where "PersistentKeepalive = 20"

section \<open>Keys\<close>

text \<open>A \<open>wgtypes.Key\<close> is an array of 32 bytes. \<open>hex.EncodeToString\<close> writes two digits for each.\<close>

type_synonym Key = "8 word list"

definition hextable :: string where "hextable = ''0123456789abcdef''"

definition hex_byte :: "8 word \<Rightarrow> string" where
  "hex_byte v = [hextable ! unat (drop_bit 4 v), hextable ! unat (v AND 15)]"

definition encodeKey :: "Key \<Rightarrow> string" where
  "encodeKey key = concat (map hex_byte key)"

text \<open>The reader on the other side, for lower-case digits.\<close>

definition hex_val :: "char \<Rightarrow> nat option" where
  "hex_val c = find (\<lambda>n. hextable ! n = c) [0..<16]"

fun decode_hex :: "string \<Rightarrow> 8 word list option" where
  "decode_hex [] = Some []"
| "decode_hex [c] = None"
| "decode_hex (c # d # s) =
     (case (hex_val c, hex_val d, decode_hex s) of
        (Some h, Some l, Some bs) \<Rightarrow> Some (word_of_nat (16 * h + l) # bs)
      | _ \<Rightarrow> None)"

section \<open>netip.ParsePrefix\<close>

text \<open>
  An address in dotted decimal: four fields of digits without leading zeros, up to 255. The
  arguments of the loop are the fields read, and the digits of the current one.
\<close>

fun parse_v4_fields :: "string \<Rightarrow> nat list \<Rightarrow> string \<Rightarrow> nat list option" where
  "parse_v4_fields [] fields cur =
     (if cur = [] then None
      else case parse_digits 0 cur of
          Some n \<Rightarrow> if length fields = 3 \<and> n \<le> 255 then Some (fields @ [n]) else None
        | None \<Rightarrow> None)"
| "parse_v4_fields (c # s) fields cur =
     (if digit_val c \<noteq> None then
        (if cur = ''0'' then None else parse_v4_fields s fields (cur @ [c]))
      else if c = CHR ''.'' then
        (if cur = [] \<or> length fields = 3 then None
         else case parse_digits 0 cur of
             Some n \<Rightarrow> if n \<le> 255 then parse_v4_fields s (fields @ [n]) [] else None
           | None \<Rightarrow> None)
      else None)"

definition ParseIPv4 :: "string \<Rightarrow> nat list option" where
  "ParseIPv4 s = parse_v4_fields s [] []"

text \<open>
  \<open>netip.ParsePrefix\<close> on an IPv4 prefix; \<open>v6\<close> parses a text with a colon before its first dot,
  which the sources never pass. The length has no leading zero or sign.
\<close>

datatype addr = IPv4 "nat list" | IPv6 "nat list"

definition ParseAddr :: "(string \<Rightarrow> nat list option) \<Rightarrow> string \<Rightarrow> addr option" where
  "ParseAddr v6 s =
     (case find (\<lambda>c. c \<in> {CHR ''.'', CHR '':'', CHR ''%''}) s of
        Some c \<Rightarrow>
          if c = CHR ''.'' then map_option IPv4 (ParseIPv4 s)
          else if c = CHR '':'' then map_option IPv6 (v6 s)
          else None
      | None \<Rightarrow> None)"

definition ParsePrefix :: "(string \<Rightarrow> nat list option) \<Rightarrow> string \<Rightarrow> (addr \<times> nat) option" where
  "ParsePrefix v6 s =
     (if CHR ''/'' \<notin> set s then None
      else let bits = rev (takeWhile (\<lambda>c. c \<noteq> CHR ''/'') (rev s));
               ip = take (length s - length bits - 1) s
           in if CHR ''%'' \<in> set ip then None
              else case ParseAddr v6 ip of
                  None \<Rightarrow> None
                | Some a \<Rightarrow>
                    if 1 < length bits \<and> \<not> (digit_val (hd bits) \<noteq> None \<and> hd bits \<noteq> CHR ''0'') then None
                    else case parse_digits 0 bits of
                        Some n \<Rightarrow>
                          if bits \<noteq> [] \<and> n \<le> (case a of IPv4 _ \<Rightarrow> 32 | IPv6 _ \<Rightarrow> 128)
                          then Some (a, n) else None
                      | None \<Rightarrow> None)"

section \<open>The configuration\<close>

text \<open>\<open>fmt.Sprintf("%d", n)\<close> is decimal printing.\<close>

definition newline :: string where "newline = [CHR 0x0A]"

definition listen_port_config :: "int \<Rightarrow> string" where
  "listen_port_config listenPort = ''listen_port='' @ Itoa listenPort @ newline"

definition wg_config :: "Key \<Rightarrow> Key \<Rightarrow> string \<Rightarrow> string \<Rightarrow> string" where
  "wg_config privateKey peerPublicKey endpoint listenPortConfig =
     (let cfg = ''private_key='' @ encodeKey privateKey @ newline @ listenPortConfig @
            ''public_key='' @ encodeKey peerPublicKey @ newline @
            ''persistent_keepalive_interval='' @ Itoa PersistentKeepalive @ newline @
            ''allowed_ip=0.0.0.0/0'' @ newline
      in if endpoint \<noteq> '''' then cfg @ ''endpoint='' @ endpoint @ newline else cfg)"

section \<open>Devices\<close>

datatype wg_error =
    ParseLocalIP string
  | CreateTUNFailed string
  | BindIsNil
  | ConfigureFailed string
  | BringUpFailed string

datatype wg_call = CreateNetTUN addr int | NewWgDevice | IpcSet string | DeviceUp | DeviceClose

text \<open>What the libraries answer: an error for the stack, the configuration and coming up.\<close>

record wg_answers =
  wa_tun :: "string option"
  wa_ipc :: "string \<Rightarrow> string option"
  wa_up :: "string option"

text \<open>A created device: its address in the tunnel, and the calls made so far.\<close>

record Device =
  d_addr :: addr
  d_calls :: "wg_call list"

definition newDevice ::
  "(string \<Rightarrow> nat list option) \<Rightarrow> wg_answers \<Rightarrow> Key \<Rightarrow> Key \<Rightarrow> string \<Rightarrow> bool \<Rightarrow> string \<Rightarrow> string \<Rightarrow>
   (wg_error + Device) \<times> wg_call list" where
  "newDevice v6 answers privateKey peerPublicKey endpoint bindNil listenPortConfig localIP =
     (case ParsePrefix v6 localIP of
        None \<Rightarrow> (Inl (ParseLocalIP localIP), [])
      | Some (ip, bits) \<Rightarrow>
          (let tun = [CreateNetTUN ip 1400] in
           case wa_tun answers of
             Some err \<Rightarrow> (Inl (CreateTUNFailed err), tun)
           | None \<Rightarrow>
               if bindNil then (Inl BindIsNil, tun)
               else let cfg = wg_config privateKey peerPublicKey endpoint listenPortConfig;
                        dev = tun @ [NewWgDevice, IpcSet cfg]
                    in case wa_ipc answers cfg of
                         Some err \<Rightarrow> (Inl (ConfigureFailed err), dev @ [DeviceClose])
                       | None \<Rightarrow>
                           (case wa_up answers of
                              Some err \<Rightarrow> (Inl (BringUpFailed err), dev @ [DeviceUp, DeviceClose])
                            | None \<Rightarrow> (Inr \<lparr>d_addr = ip, d_calls = dev @ [DeviceUp]\<rparr>, dev @ [DeviceUp]))))"

definition NewDevice ::
  "(string \<Rightarrow> nat list option) \<Rightarrow> wg_answers \<Rightarrow> Key \<Rightarrow> Key \<Rightarrow> string \<Rightarrow> int \<Rightarrow> string \<Rightarrow>
   (wg_error + Device) \<times> wg_call list" where
  "NewDevice v6 answers privateKey peerPublicKey endpoint listenPort localIP =
     newDevice v6 answers privateKey peerPublicKey endpoint False (listen_port_config listenPort) localIP"

text \<open>\<open>Device.Close\<close> on a pointer that may be nil.\<close>

definition closeDevice :: "Device option \<Rightarrow> Device option" where
  "closeDevice d = map_option (\<lambda>d. d\<lparr>d_calls := d_calls d @ [DeviceClose]\<rparr>) d"

text \<open>The options set on the stack; the libraries' own sizes are arguments.\<close>

datatype stack_option = TCPReceiveBuffer int int int | TCPSendBuffer int int int | TCPRecovery int

definition tuneStack :: "int \<Rightarrow> int \<Rightarrow> int \<Rightarrow> bool \<Rightarrow> stack_option list" where
  "tuneStack minSize defaultReceive defaultSend stackNil =
     (if stackNil then []
      else [TCPReceiveBuffer minSize defaultReceive (8 * 2 ^ 20), TCPSendBuffer minSize defaultSend (6 * 2 ^ 20),
            TCPRecovery 0])"

section \<open>Keys survive the text\<close>

lemma hex_val_table: "n < 16 \<Longrightarrow> hex_val (hextable ! n) = Some n"
proof -
  have "\<forall>n \<in> set [0..<16]. hex_val (hextable ! n) = Some n" by code_simp
  then show "n < 16 \<Longrightarrow> hex_val (hextable ! n) = Some n" by simp
qed

lemma nibbles:
  fixes v :: "8 word"
  shows "unat (drop_bit 4 v) < 16" "unat (v AND 15) < 16"
    "word_of_nat (16 * unat (drop_bit 4 v) + unat (v AND 15)) = v"
proof -
  have hi: "unat (drop_bit 4 v) = unat v div 16" by (simp only: unat_drop_bit_eq) (simp add: drop_bit_eq_div)
  have "v AND 15 = take_bit 4 v" by (simp add: take_bit_eq_mask mask_eq_exp_minus_1)
  then have lo: "unat (v AND 15) = unat v mod 16" by (simp only: unsigned_take_bit_eq) (simp add: take_bit_eq_mod)
  have "unat v < 256" using unsigned_less [of v] by simp
  then show "unat (drop_bit 4 v) < 16" "unat (v AND 15) < 16" unfolding hi lo by simp_all
  show "word_of_nat (16 * unat (drop_bit 4 v) + unat (v AND 15)) = v" unfolding hi lo by simp
qed

lemma decode_encodeKey: "decode_hex (encodeKey key) = Some key"
  by (induction key) (simp_all add: encodeKey_def hex_byte_def hex_val_table nibbles(1,2) nibbles(3) [simplified])

section \<open>The configuration text\<close>

text \<open>How the text is read: lines of a key, an equals sign and a value.\<close>

fun split_lines :: "string \<Rightarrow> string \<Rightarrow> string list" where
  "split_lines cur [] = []"
| "split_lines cur (c # s) =
     (if c = CHR 0x0A then rev cur # split_lines [] s else split_lines (c # cur) s)"

definition key_value :: "string \<Rightarrow> string \<times> string" where
  "key_value line = (takeWhile (\<lambda>c. c \<noteq> CHR ''='') line, drop 1 (dropWhile (\<lambda>c. c \<noteq> CHR ''='') line))"

definition parse_uapi :: "string \<Rightarrow> (string \<times> string) list" where
  "parse_uapi s = map key_value (split_lines [] s)"

definition print_uapi :: "(string \<times> string) list \<Rightarrow> string" where
  "print_uapi kvs = concat (map (\<lambda>(k, v). k @ ''='' @ v @ newline) kvs)"

definition uapi_ok :: "string \<times> string \<Rightarrow> bool" where
  "uapi_ok kv \<longleftrightarrow> CHR 0x0A \<notin> set (fst kv) \<and> CHR ''='' \<notin> set (fst kv) \<and> CHR 0x0A \<notin> set (snd kv)"

lemma split_lines_append:
  "CHR 0x0A \<notin> set l \<Longrightarrow> split_lines cur (l @ newline @ s) = (rev cur @ l) # split_lines [] s"
  by (induction l arbitrary: cur) (auto simp: newline_def)

lemma key_value_line: "CHR ''='' \<notin> set k \<Longrightarrow> key_value (k @ ''='' @ v) = (k, v)"
  by (induction k) (auto simp: key_value_def)

lemma parse_print_uapi: "list_all uapi_ok kvs \<Longrightarrow> parse_uapi (print_uapi kvs) = kvs"
proof (induction kvs)
  case (Cons kv kvs)
  obtain k v where kv: "kv = (k, v)" by (cases kv)
  have ok: "CHR 0x0A \<notin> set (k @ ''='' @ v)" "CHR ''='' \<notin> set k"
    using Cons.prems kv by (simp_all add: uapi_ok_def)
  have "print_uapi (kv # kvs) = (k @ ''='' @ v) @ newline @ print_uapi kvs"
    by (simp add: print_uapi_def kv)
  then have "parse_uapi (print_uapi (kv # kvs)) = key_value (k @ ''='' @ v) # parse_uapi (print_uapi kvs)"
    using split_lines_append [OF ok(1), of "[]"] by (simp add: parse_uapi_def)
  with Cons kv key_value_line [OF ok(2)] show ?case by simp
qed (simp add: print_uapi_def parse_uapi_def)

definition wg_settings :: "Key \<Rightarrow> Key \<Rightarrow> string \<Rightarrow> int \<Rightarrow> (string \<times> string) list" where
  "wg_settings privateKey peerPublicKey endpoint listenPort =
     [(''private_key'', encodeKey privateKey), (''listen_port'', Itoa listenPort),
      (''public_key'', encodeKey peerPublicKey),
      (''persistent_keepalive_interval'', Itoa PersistentKeepalive), (''allowed_ip'', ''0.0.0.0/0'')] @
     (if endpoint \<noteq> '''' then [(''endpoint'', endpoint)] else [])"

lemma wg_config_print:
  "wg_config privateKey peerPublicKey endpoint (listen_port_config listenPort) =
     print_uapi (wg_settings privateKey peerPublicKey endpoint listenPort)"
  by (simp add: wg_config_def wg_settings_def print_uapi_def listen_port_config_def Let_def)

lemma hex_no_newline: "CHR 0x0A \<notin> set (encodeKey key)"
proof -
  have "\<forall>n \<in> set [0..<16]. hextable ! n \<noteq> CHR 0x0A" by code_simp
  then have "hextable ! n \<noteq> CHR 0x0A" if "n < 16" for n using that by simp
  with nibbles(1,2) show ?thesis by (fastforce simp: encodeKey_def hex_byte_def)
qed

lemma Itoa_no_newline: "CHR 0x0A \<notin> set (Itoa i)"
proof -
  have "\<forall>d \<in> set [0..<10]. digit_char d \<noteq> CHR 0x0A" by code_simp
  then have "digit_char d \<noteq> CHR 0x0A" if "d < 10" for d using that by simp
  then have "CHR 0x0A \<notin> set (nat_digits n)" for n
    using nat_digits_set [of "CHR 0x0A" n] by metis
  then show ?thesis by (simp add: Itoa_def)
qed

lemma wg_config_parse:
  assumes "CHR 0x0A \<notin> set endpoint"
  shows "parse_uapi (wg_config privateKey peerPublicKey endpoint (listen_port_config listenPort)) =
    wg_settings privateKey peerPublicKey endpoint listenPort"
  unfolding wg_config_print using assms
  by (intro parse_print_uapi) (auto simp: wg_settings_def uapi_ok_def hex_no_newline Itoa_no_newline)

text \<open>
  C18: A device is configured with what was asked for, and never left half made. The text given
  to wireguard-go reads back, line by line, as the private key, the port, the peer's public
  key, the keep-alive interval, all addresses allowed, and the endpoint if there is one, with
  the settings of the device before those of the peer. A device that could not be configured
  or brought up is closed, and one that is returned is up, not closed, and has the address of
  the given prefix.
\<close>

theorem NewDevice_correct:
  assumes "NewDevice v6 answers privateKey peerPublicKey endpoint listenPort localIP = (r, calls)"
    and "CHR 0x0A \<notin> set endpoint" and "in_int64 listenPort"
  shows "(\<forall>cfg. IpcSet cfg \<in> set calls \<longrightarrow>
      map fst (parse_uapi cfg) = [''private_key'', ''listen_port'', ''public_key'',
        ''persistent_keepalive_interval'', ''allowed_ip''] @ (if endpoint \<noteq> '''' then [''endpoint''] else []) \<and>
      Option.bind (map_of (parse_uapi cfg) ''private_key'') decode_hex = Some privateKey \<and>
      Option.bind (map_of (parse_uapi cfg) ''public_key'') decode_hex = Some peerPublicKey \<and>
      Option.bind (map_of (parse_uapi cfg) ''listen_port'') (ParseInt 64) = Some listenPort \<and>
      map_of (parse_uapi cfg) ''endpoint'' = (if endpoint \<noteq> '''' then Some endpoint else None)) \<and>
    (case r of
       Inl e \<Rightarrow> NewWgDevice \<in> set calls \<longrightarrow> last calls = DeviceClose
     | Inr d \<Rightarrow> (\<exists>ip bits cfg. ParsePrefix v6 localIP = Some (ip, bits) \<and> d_addr d = ip \<and>
         calls = [CreateNetTUN ip 1400, NewWgDevice, IpcSet cfg, DeviceUp]))"
proof -
  let ?cfg = "wg_config privateKey peerPublicKey endpoint (listen_port_config listenPort)"
  have cfg: "cfg = ?cfg" if "IpcSet cfg \<in> set calls" for cfg
    using assms(1) that by (auto simp: NewDevice_def newDevice_def Let_def split: option.splits if_splits)
  have "ParseInt 64 (Itoa listenPort) = Some listenPort"
    using assms(3) by (intro ParseInt_Itoa) (simp_all add: in_int64_def)
  then have "map fst (parse_uapi cfg) = [''private_key'', ''listen_port'', ''public_key'',
        ''persistent_keepalive_interval'', ''allowed_ip''] @ (if endpoint \<noteq> '''' then [''endpoint''] else []) \<and>
      Option.bind (map_of (parse_uapi cfg) ''private_key'') decode_hex = Some privateKey \<and>
      Option.bind (map_of (parse_uapi cfg) ''public_key'') decode_hex = Some peerPublicKey \<and>
      Option.bind (map_of (parse_uapi cfg) ''listen_port'') (ParseInt 64) = Some listenPort \<and>
      map_of (parse_uapi cfg) ''endpoint'' = (if endpoint \<noteq> '''' then Some endpoint else None)"
    if "IpcSet cfg \<in> set calls" for cfg
    unfolding cfg [OF that] wg_config_parse [OF assms(2)]
    by (simp add: wg_settings_def decode_encodeKey)
  moreover have "case r of
       Inl e \<Rightarrow> NewWgDevice \<in> set calls \<longrightarrow> last calls = DeviceClose
     | Inr d \<Rightarrow> (\<exists>ip bits cfg. ParsePrefix v6 localIP = Some (ip, bits) \<and> d_addr d = ip \<and>
         calls = [CreateNetTUN ip 1400, NewWgDevice, IpcSet cfg, DeviceUp])"
    using assms(1) by (auto simp: NewDevice_def newDevice_def Let_def split: option.splits)
  ultimately show ?thesis by blast
qed

text \<open>The gateway's address, and the two ends of the tunnel in one network of four addresses.\<close>

lemma TunnelIPGateway_addr: "ParsePrefix v6 TunnelIPGateway = Some (IPv4 [10, 0, 0, 2], 30)"
  by (simp add: ParsePrefix_def TunnelIPGateway_def ParseAddr_def ParseIPv4_def digit_val_def Let_def)

lemma TunnelIPClient_addr: "ParsePrefix v6 TunnelIPClient = Some (IPv4 [10, 0, 0, 1], 30)"
  by (simp add: ParsePrefix_def TunnelIPClient_def ParseAddr_def ParseIPv4_def digit_val_def Let_def)

definition ex_answers :: wg_answers where
  "ex_answers = \<lparr>wa_tun = None, wa_ipc = (\<lambda>_. None), wa_up = None\<rparr>"

theorem NewDevice_correct_witness:
  "\<exists>d calls cfg. NewDevice (\<lambda>_. None) ex_answers [1, 2] [3, 255] '''' 51820 TunnelIPGateway = (Inr d, calls) \<and>
     d_addr d = IPv4 [10, 0, 0, 2] \<and> IpcSet cfg \<in> set calls \<and>
     Option.bind (map_of (parse_uapi cfg) ''public_key'') decode_hex = Some [3, 255] \<and>
     Option.bind (map_of (parse_uapi cfg) ''listen_port'') (ParseInt 64) = Some 51820"
proof -
  obtain r calls where n: "NewDevice (\<lambda>_. None) ex_answers [1, 2] [3, 255] '''' 51820 TunnelIPGateway = (r, calls)"
    by force
  then obtain d where d: "r = Inr d"
    by (auto simp: NewDevice_def newDevice_def ex_answers_def TunnelIPGateway_addr Let_def)
  note c = NewDevice_correct [OF n]
  have "in_int64 51820" by (simp add: in_int64_def)
  with c d obtain cfg where "d_addr d = IPv4 [10, 0, 0, 2]" "IpcSet cfg \<in> set calls"
    by (auto simp: TunnelIPGateway_addr)
  with c \<open>in_int64 51820\<close> n d show ?thesis by auto
qed

end
