(* ===== verification/Gateway.thy ===== *)
theory Gateway
  imports Gateway_Resources Process_Env Wireguard
begin

text \<open>
  The gateway program, \<open>cmd/gateway/main.go\<close> and \<open>metrics.go\<close>: how it starts from its
  environment, the TCP proxy from the tunnel to the target, and the timeout that ends it when
  no peer connects any more. Keys are generated and parsed by wgtypes, which is outside the
  sources: its answers are arguments.
\<close>

section \<open>Metrics\<close>

record gatewayMetrics =
  mt_labels :: "(string \<times> string) list"
  tcpConnectionsTotal :: nat
  tcpConnectionsActive :: int
  tcpReceivedBytes :: nat
  tcpSentBytes :: nat

definition newGatewayMetrics :: "string \<Rightarrow> string \<Rightarrow> string \<Rightarrow> string \<Rightarrow> gatewayMetrics" where
  "newGatewayMetrics tunnelName tunnelNamespace targetHost targetPort =
     \<lparr>mt_labels = [(''tunnel_name'', tunnelName), (''tunnel_namespace'', tunnelNamespace),
        (''target_host'', targetHost), (''target_port'', targetPort)],
      tcpConnectionsTotal = 0, tcpConnectionsActive = 0, tcpReceivedBytes = 0, tcpSentBytes = 0\<rparr>"

section \<open>Start\<close>

definition targetAddress :: "string \<Rightarrow> string \<Rightarrow> int \<Rightarrow> string" where
  "targetAddress host ip port =
     (if ip \<noteq> '''' then JoinHostPort ip (Itoa port) else JoinHostPort host (Itoa port))"

text \<open>The status endpoint: a status code and the public key of the answer, if there is one.\<close>

definition statusHandler :: "string option \<Rightarrow> int \<times> string option" where
  "statusHandler publicKeyValue =
     (case publicKeyValue of None \<Rightarrow> (503, None) | Some pk \<Rightarrow> (200, Some pk))"

datatype gw_error =
    InvalidTargetPort
  | ParsePeerKeyFailed string
  | GenerateKeyFailed string
  | CreateDeviceFailed wg_error
  | ListenTCPFailed string
  | AcceptFailed string

text \<open>
  \<open>ga_parseKey\<close> is \<open>wgtypes.ParseKey\<close>, \<open>ga_privateKey\<close> the generated key or the error, and
  \<open>ga_publicKey\<close> the text of a private key's public key.
\<close>

record gw_answers =
  ga_parseKey :: "string \<Rightarrow> string + Key"
  ga_privateKey :: "string + Key"
  ga_publicKey :: "Key \<Rightarrow> string"
  ga_wg :: wg_answers
  ga_listen :: "string option"

record gateway =
  gw_peer :: Key
  gw_device :: Device
  gw_targetAddr :: string
  gw_listenAddr :: "nat list \<times> int"
  gw_publicKeyValue :: "string option"
  gw_metrics :: gatewayMetrics

datatype gw_start = GwExited | GwFailed gw_error "wg_call list" | GwReady gateway

definition gateway_device ::
  "(string \<Rightarrow> nat list option) \<Rightarrow> gw_answers \<Rightarrow> Key \<Rightarrow> string \<Rightarrow> string \<Rightarrow> int \<Rightarrow> gatewayMetrics \<Rightarrow> gw_start" where
  "gateway_device v6 answers peer targetHost targetIP targetPort metrics =
     (case ga_privateKey answers of
        Inl err \<Rightarrow> GwFailed (GenerateKeyFailed err) []
      | Inr privateKey \<Rightarrow>
          (case NewDevice v6 (ga_wg answers) privateKey peer '''' 51820 TunnelIPGateway of
             (Inl err, calls) \<Rightarrow> GwFailed (CreateDeviceFailed err) calls
           | (Inr dev, calls) \<Rightarrow>
               (case ga_listen answers of
                  Some err \<Rightarrow> GwFailed (ListenTCPFailed err) (calls @ [DeviceClose])
                | None \<Rightarrow>
                    GwReady \<lparr>gw_peer = peer, gw_device = dev,
                      gw_targetAddr = targetAddress targetHost targetIP targetPort,
                      gw_listenAddr = ([10, 0, 0, 2], targetPort),
                      gw_publicKeyValue = Some (ga_publicKey answers privateKey),
                      gw_metrics = metrics\<rparr>)))"

text \<open>\<open>strconv.Atoi\<close> parses the range of \<open>int\<close>.\<close>

definition gateway_start ::
  "(string \<Rightarrow> nat list option) \<Rightarrow> gw_answers \<Rightarrow> environment \<Rightarrow> gw_start" where
  "gateway_start v6 answers env =
     (case (requireEnv_gateway env ''TUNNEL_PEER_PUBLIC_KEY'', requireEnv_gateway env ''TUNNEL_TARGET_HOST'',
            requireEnv_gateway env ''TUNNEL_TARGET_PORT'', requireEnv_gateway env ''TUNNEL_NAME'',
            requireEnv_gateway env ''TUNNEL_NAMESPACE'') of
        (Some peerPublicKeyStr, Some targetHost, Some targetPortStr, Some tunnelName, Some tunnelNamespace) \<Rightarrow>
          (let targetIP = TrimSpace (env ''TUNNEL_TARGET_IP'');
               metrics = newGatewayMetrics tunnelName tunnelNamespace targetHost targetPortStr
           in case ParseInt 64 targetPortStr of
                None \<Rightarrow> GwFailed InvalidTargetPort []
              | Some targetPort \<Rightarrow>
                  (case ga_parseKey answers peerPublicKeyStr of
                     Inl err \<Rightarrow> GwFailed (ParsePeerKeyFailed err) []
                   | Inr peer \<Rightarrow> gateway_device v6 answers peer targetHost targetIP targetPort metrics))
      | _ \<Rightarrow> GwExited)"

section \<open>Connections\<close>

text \<open>
  \<open>handleConn\<close> of one connection. Both sides are open or closed, and open or shut for writing;
  \<open>cn_up\<close> and \<open>cn_down\<close> are the bytes of a copy that has ended.
\<close>

datatype conn_pc = Accepted | Dialing | Copying | Done

record conn =
  cn_pc :: conn_pc
  cn_srcOpen :: bool
  cn_dstOpen :: bool
  cn_srcWrite :: bool
  cn_dstWrite :: bool
  cn_up :: "nat option"
  cn_down :: "nat option"

definition new_conn :: conn where
  "new_conn = \<lparr>cn_pc = Accepted, cn_srcOpen = True, cn_dstOpen = False, cn_srcWrite = True,
     cn_dstWrite = False, cn_up = None, cn_down = None\<rparr>"

datatype conn_event = ConnBegin | DialFailed | DialOk | CopyUpDone nat | CopyDownDone nat | ConnReturn

fun handleConn :: "conn_event \<Rightarrow> conn \<times> gatewayMetrics \<Rightarrow> (conn \<times> gatewayMetrics) option" where
  "handleConn ConnBegin (c, m) =
     (if cn_pc c = Accepted
      then Some (c\<lparr>cn_pc := Dialing\<rparr>,
                 m\<lparr>tcpConnectionsTotal := tcpConnectionsTotal m + 1,
                   tcpConnectionsActive := tcpConnectionsActive m + 1\<rparr>)
      else None)"
| "handleConn DialFailed (c, m) =
     (if cn_pc c = Dialing
      then Some (c\<lparr>cn_pc := Done, cn_srcOpen := False\<rparr>,
                 m\<lparr>tcpConnectionsActive := tcpConnectionsActive m - 1\<rparr>)
      else None)"
| "handleConn DialOk (c, m) =
     (if cn_pc c = Dialing
      then Some (c\<lparr>cn_pc := Copying, cn_dstOpen := True, cn_dstWrite := True\<rparr>, m) else None)"
| "handleConn (CopyUpDone n) (c, m) =
     (if cn_pc c = Copying \<and> cn_up c = None
      then Some (c\<lparr>cn_up := Some n, cn_dstWrite := False\<rparr>,
                 m\<lparr>tcpReceivedBytes := tcpReceivedBytes m + n\<rparr>)
      else None)"
| "handleConn (CopyDownDone n) (c, m) =
     (if cn_pc c = Copying \<and> cn_down c = None
      then Some (c\<lparr>cn_down := Some n, cn_srcWrite := False\<rparr>,
                 m\<lparr>tcpSentBytes := tcpSentBytes m + n\<rparr>)
      else None)"
| "handleConn ConnReturn (c, m) =
     (if cn_pc c = Copying \<and> cn_up c \<noteq> None \<and> cn_down c \<noteq> None
      then Some (c\<lparr>cn_pc := Done, cn_dstOpen := False, cn_srcOpen := False\<rparr>,
                 m\<lparr>tcpConnectionsActive := tcpConnectionsActive m - 1\<rparr>)
      else None)"

section \<open>The running gateway\<close>

text \<open>
  Time is in nanoseconds. \<open>activityCh\<close> holds at most one token. The goroutine that watches for
  peers waits for the first one, then has a timer; \<open>peerTimeoutCh\<close> is closed when it fires.
  \<open>gr_accepts\<close> records when connections were accepted.
\<close>

definition peerTimeout :: int where "peerTimeout = 3600 * 1000000000"

datatype peer_watch = WaitPeer | Armed int | PeerWatchDone

datatype gw_result = ShutDown | ServeFailed gw_error | PeerTimedOut

record gw_run =
  gr_now :: int
  gr_ctxDone :: bool
  gr_serving :: bool
  gr_errCh :: "gw_error option"
  gr_activityCh :: bool
  gr_watch :: peer_watch
  gr_peerTimeoutCh :: bool
  gr_conns :: "conn list"
  gr_metrics :: gatewayMetrics
  gr_accepts :: "int list"
  gr_result :: "gw_result option"

definition gw_run_start :: "int \<Rightarrow> gatewayMetrics \<Rightarrow> gw_run" where
  "gw_run_start now metrics =
     \<lparr>gr_now = now, gr_ctxDone = False, gr_serving = True, gr_errCh = None, gr_activityCh = False,
      gr_watch = WaitPeer, gr_peerTimeoutCh = False, gr_conns = [], gr_metrics = metrics,
      gr_accepts = [], gr_result = None\<rparr>"

datatype gw_event =
    Passes nat
  | Signal
  | Accept
  | AcceptError string
  | ConnEvent nat conn_event
  | PeerActivity
  | PeerFired
  | PeerCtxDone
  | MainDone gw_result

text \<open>The TCP proxy, \<open>serveTCPProxy\<close>: one step of its loop.\<close>

fun serveTCPProxy :: "(string + unit) \<Rightarrow> gw_run \<Rightarrow> gw_run option" where
  "serveTCPProxy (Inr _) g =
     (if gr_serving g
      then Some (g\<lparr>gr_activityCh := True, gr_conns := gr_conns g @ [new_conn],
                   gr_accepts := gr_accepts g @ [gr_now g]\<rparr>)
      else None)"
| "serveTCPProxy (Inl err) g =
     (if gr_serving g
      then Some (g\<lparr>gr_serving := False,
          gr_errCh := (if gr_ctxDone g \<or> gr_errCh g \<noteq> None then gr_errCh g else Some (AcceptFailed err))\<rparr>)
      else None)"

text \<open>The goroutine that watches for peers.\<close>

fun peer_step :: "gw_event \<Rightarrow> gw_run \<Rightarrow> gw_run option" where
  "peer_step PeerActivity g =
     (if gr_activityCh g \<and> gr_watch g \<noteq> PeerWatchDone
      then Some (g\<lparr>gr_activityCh := False, gr_watch := Armed (gr_now g + peerTimeout)\<rparr>) else None)"
| "peer_step PeerFired g =
     (case gr_watch g of
        Armed deadline \<Rightarrow>
          if deadline \<le> gr_now g then Some (g\<lparr>gr_watch := PeerWatchDone, gr_peerTimeoutCh := True\<rparr>) else None
      | _ \<Rightarrow> None)"
| "peer_step PeerCtxDone g =
     (if gr_ctxDone g \<and> gr_watch g \<noteq> PeerWatchDone then Some (g\<lparr>gr_watch := PeerWatchDone\<rparr>) else None)"
| "peer_step _ g = None"

text \<open>The select at the end of \<open>run\<close>.\<close>

definition main_select :: "gw_result \<Rightarrow> gw_run \<Rightarrow> bool" where
  "main_select r g \<longleftrightarrow>
     (case r of
        ShutDown \<Rightarrow> gr_ctxDone g
      | ServeFailed e \<Rightarrow> gr_errCh g = Some e
      | PeerTimedOut \<Rightarrow> gr_peerTimeoutCh g)"

fun gw_exec :: "gw_event \<Rightarrow> gw_run \<Rightarrow> gw_run option" where
  "gw_exec e g =
     (if gr_result g \<noteq> None then None
      else case e of
          Passes n \<Rightarrow> Some (g\<lparr>gr_now := gr_now g + int n\<rparr>)
        | Signal \<Rightarrow> Some (g\<lparr>gr_ctxDone := True\<rparr>)
        | Accept \<Rightarrow> serveTCPProxy (Inr ()) g
        | AcceptError err \<Rightarrow> serveTCPProxy (Inl err) g
        | ConnEvent i ce \<Rightarrow>
            if i < length (gr_conns g)
            then map_option (\<lambda>(c, m). g\<lparr>gr_conns := (gr_conns g)[i := c], gr_metrics := m\<rparr>)
                   (handleConn ce (gr_conns g ! i, gr_metrics g))
            else None
        | MainDone r \<Rightarrow> if main_select r g then Some (g\<lparr>gr_result := Some r\<rparr>) else None
        | _ \<Rightarrow> peer_step e g)"

inductive gw_step :: "gw_run \<Rightarrow> gw_run \<Rightarrow> bool" where
  gw_step: "gw_exec e g = Some h \<Longrightarrow> gw_step g h"

definition gw_init :: "gw_run \<Rightarrow> bool" where
  "gw_init g \<longleftrightarrow> (\<exists>now n ns host port. g = gw_run_start now (newGatewayMetrics n ns host port))"

section \<open>Invariants\<close>

definition conn_running :: "conn \<Rightarrow> bool" where
  "conn_running c \<longleftrightarrow> cn_pc c = Dialing \<or> cn_pc c = Copying"

text \<open>What a connection holds open follows from where its goroutine is.\<close>

definition conn_ok :: "conn \<Rightarrow> bool" where
  "conn_ok c \<longleftrightarrow>
     (cn_srcOpen c \<longleftrightarrow> cn_pc c \<noteq> Done) \<and> (cn_dstOpen c \<longleftrightarrow> cn_pc c = Copying) \<and>
     (cn_pc c = Copying \<longrightarrow> (cn_dstWrite c \<longleftrightarrow> cn_up c = None) \<and> (cn_srcWrite c \<longleftrightarrow> cn_down c = None)) \<and>
     (cn_pc c \<in> {Accepted, Dialing} \<longrightarrow> cn_up c = None \<and> cn_down c = None \<and> cn_srcWrite c)"

definition copied :: "nat option \<Rightarrow> nat" where
  "copied x = (case x of None \<Rightarrow> 0 | Some n \<Rightarrow> n)"

definition conns_inv :: "gw_run \<Rightarrow> bool" where
  "conns_inv g \<longleftrightarrow>
     (\<forall>c \<in> set (gr_conns g). conn_ok c) \<and> length (gr_accepts g) = length (gr_conns g) \<and>
     tcpConnectionsTotal (gr_metrics g) = (\<Sum>c \<leftarrow> gr_conns g. if cn_pc c = Accepted then 0 else 1) \<and>
     tcpConnectionsActive (gr_metrics g) = int (\<Sum>c \<leftarrow> gr_conns g. if conn_running c then 1 else 0) \<and>
     tcpReceivedBytes (gr_metrics g) = (\<Sum>c \<leftarrow> gr_conns g. copied (cn_up c)) \<and>
     tcpSentBytes (gr_metrics g) = (\<Sum>c \<leftarrow> gr_conns g. copied (cn_down c))"

text \<open>When the timer was last set, every accepted connection but an unseen one had been.\<close>

fun timer_ok :: "int \<Rightarrow> int list \<Rightarrow> bool \<Rightarrow> bool \<Rightarrow> peer_watch \<Rightarrow> bool" where
  "timer_ok now accepts activity fired WaitPeer \<longleftrightarrow> \<not> fired"
| "timer_ok now accepts activity fired (Armed deadline) \<longleftrightarrow>
     \<not> fired \<and> deadline \<le> now + peerTimeout \<and> (\<exists>a \<in> set accepts. a + peerTimeout \<le> deadline) \<and>
     (\<not> activity \<longrightarrow> (\<forall>a \<in> set accepts. a + peerTimeout \<le> deadline))"
| "timer_ok now accepts activity fired PeerWatchDone \<longleftrightarrow>
     (fired \<longrightarrow> (\<exists>a \<in> set accepts. a + peerTimeout \<le> now))"

definition watch_ok :: "gw_run \<Rightarrow> bool" where
  "watch_ok g \<longleftrightarrow>
     (\<forall>a \<in> set (gr_accepts g). a \<le> gr_now g) \<and> (gr_activityCh g \<longrightarrow> gr_accepts g \<noteq> []) \<and>
     (gr_errCh g \<noteq> None \<longrightarrow> \<not> gr_serving g) \<and>
     (\<forall>e. gr_errCh g = Some e \<longrightarrow> (\<exists>err. e = AcceptFailed err)) \<and>
     timer_ok (gr_now g) (gr_accepts g) (gr_activityCh g) (gr_peerTimeoutCh g) (gr_watch g)"

lemma sum_update:
  fixes f :: "'a \<Rightarrow> 'b::comm_monoid_add"
  shows "i < length xs \<Longrightarrow> (\<Sum>x \<leftarrow> xs[i := y]. f x) + f (xs ! i) = (\<Sum>x \<leftarrow> xs. f x) + f y"
  by (induction xs arbitrary: i) (auto simp: nth_Cons ac_simps split: nat.splits)

lemma handleConn_effect:
  assumes "handleConn e (c, m) = Some (c', m')" "conn_ok c"
  shows "conn_ok c'"
    "tcpConnectionsTotal m' + (if cn_pc c = Accepted then 0 else 1) =
       tcpConnectionsTotal m + (if cn_pc c' = Accepted then 0 else 1)"
    "tcpConnectionsActive m' + int (if conn_running c then 1 else 0) =
       tcpConnectionsActive m + int (if conn_running c' then 1 else 0)"
    "tcpReceivedBytes m' + copied (cn_up c) = tcpReceivedBytes m + copied (cn_up c')"
    "tcpSentBytes m' + copied (cn_down c) = tcpSentBytes m + copied (cn_down c')"
    "mt_labels m' = mt_labels m"
proof -
  note d = conn_ok_def conn_running_def copied_def
  show "conn_ok c'"
    using assms by (cases e) (simp_all add: d split: if_splits, auto)
  show "tcpConnectionsTotal m' + (if cn_pc c = Accepted then 0 else 1) =
       tcpConnectionsTotal m + (if cn_pc c' = Accepted then 0 else 1)"
    using assms(1) by (cases e) (auto split: if_splits)
  show "tcpConnectionsActive m' + int (if conn_running c then 1 else 0) =
       tcpConnectionsActive m + int (if conn_running c' then 1 else 0)"
    using assms(1) by (cases e) (auto simp: conn_running_def split: if_splits)
  show "tcpReceivedBytes m' + copied (cn_up c) = tcpReceivedBytes m + copied (cn_up c')"
    using assms(1) by (cases e) (auto simp: copied_def split: if_splits)
  show "tcpSentBytes m' + copied (cn_down c) = tcpSentBytes m + copied (cn_down c')"
    using assms(1) by (cases e) (auto simp: copied_def split: if_splits)
  show "mt_labels m' = mt_labels m"
    using assms(1) by (cases e) (auto split: if_splits)
qed

lemma conns_inv_conn:
  assumes i: "conns_inv g" and "j < length (gr_conns g)"
    and h: "handleConn ce (gr_conns g ! j, gr_metrics g) = Some (c', m')"
  shows "conns_inv (g\<lparr>gr_conns := (gr_conns g)[j := c'], gr_metrics := m'\<rparr>)"
proof -
  let ?cs = "gr_conns g"
  have ok: "conn_ok (?cs ! j)" using i assms(2) by (simp add: conns_inv_def)
  note e = handleConn_effect [OF h ok]
  have "\<forall>c \<in> set (?cs[j := c']). conn_ok c"
    using i e(1) set_update_subset_insert [of ?cs j c'] by (auto simp: conns_inv_def)
  moreover have "tcpConnectionsTotal m' = (\<Sum>c \<leftarrow> ?cs[j := c']. if cn_pc c = Accepted then 0 else 1)"
    using sum_update [OF assms(2), where f = "\<lambda>c. if cn_pc c = Accepted then 0 else (1::nat)" and y = c'] e(2) i
    by (simp add: conns_inv_def)
  moreover have "tcpConnectionsActive m' = int (\<Sum>c \<leftarrow> ?cs[j := c']. if conn_running c then 1 else 0)"
    using arg_cong [OF sum_update [OF assms(2), where f = "\<lambda>c. if conn_running c then (1::nat) else 0" and y = c'], of int] e(3) i
    unfolding conns_inv_def of_nat_add by linarith
  moreover have "tcpReceivedBytes m' = (\<Sum>c \<leftarrow> ?cs[j := c']. copied (cn_up c))"
    using sum_update [OF assms(2), where f = "\<lambda>c. copied (cn_up c)" and y = c'] e(4) i
    by (simp add: conns_inv_def)
  moreover have "tcpSentBytes m' = (\<Sum>c \<leftarrow> ?cs[j := c']. copied (cn_down c))"
    using sum_update [OF assms(2), where f = "\<lambda>c. copied (cn_down c)" and y = c'] e(5) i
    by (simp add: conns_inv_def)
  ultimately show ?thesis using i by (simp add: conns_inv_def)
qed

lemma conns_inv_accept:
  assumes "conns_inv g"
  shows "conns_inv (g\<lparr>gr_activityCh := True, gr_conns := gr_conns g @ [new_conn],
    gr_accepts := gr_accepts g @ [gr_now g]\<rparr>)"
proof -
  have "conn_ok new_conn" "\<not> conn_running new_conn" "cn_pc new_conn = Accepted"
    "copied (cn_up new_conn) = 0" "copied (cn_down new_conn) = 0"
    by (simp_all add: new_conn_def conn_ok_def conn_running_def copied_def)
  with assms show ?thesis by (simp add: conns_inv_def)
qed

lemma conns_inv_step:
  assumes i: "conns_inv g" and e: "gw_exec e g = Some h"
  shows "conns_inv h"
proof (cases e)
  case (ConnEvent j ce)
  with e obtain c' m' where "j < length (gr_conns g)" "handleConn ce (gr_conns g ! j, gr_metrics g) = Some (c', m')"
      "h = g\<lparr>gr_conns := (gr_conns g)[j := c'], gr_metrics := m'\<rparr>"
    by (auto split: if_splits)
  with conns_inv_conn [OF i] show ?thesis by simp
next
  case Accept
  with e conns_inv_accept [OF i] show ?thesis by (auto split: if_splits)
qed (use i e in \<open>auto simp: conns_inv_def split: if_splits peer_watch.splits\<close>)

lemma timer_ok_mono:
  assumes "timer_ok now accepts activity fired w" "now \<le> now'"
  shows "timer_ok now' accepts activity fired w"
  using assms by (cases w) (simp, force, force dest: order_trans)

lemma timer_ok_accept:
  assumes "timer_ok now accepts activity fired w"
  shows "timer_ok now (accepts @ [a]) True fired w"
  using assms by (cases w) auto

lemma watch_ok_step:
  assumes "watch_ok g" and "gw_exec e g = Some h"
  shows "watch_ok h"
proof (cases e)
  case (Passes n)
  then have h: "h = g\<lparr>gr_now := gr_now g + int n\<rparr>" using assms(2) by (auto split: if_splits)
  have "a \<le> gr_now g + int n" if "a \<in> set (gr_accepts g)" for a
    using assms(1) that unfolding watch_ok_def by (blast intro: order_trans [of a "gr_now g"] add_increasing2 of_nat_0_le_iff)
  moreover have "timer_ok (gr_now g + int n) (gr_accepts g) (gr_activityCh g) (gr_peerTimeoutCh g) (gr_watch g)"
    using assms(1) timer_ok_mono [of "gr_now g" _ _ _ _ "gr_now g + int n"] by (simp add: watch_ok_def)
  ultimately show ?thesis using assms(1) by (simp add: h watch_ok_def)
next
  case Accept
  then have h: "h = g\<lparr>gr_activityCh := True, gr_conns := gr_conns g @ [new_conn],
      gr_accepts := gr_accepts g @ [gr_now g]\<rparr>" "gr_serving g"
    using assms(2) by (simp_all split: if_splits)
  have "timer_ok (gr_now g) (gr_accepts g @ [gr_now g]) True (gr_peerTimeoutCh g) (gr_watch g)"
    using assms(1) unfolding watch_ok_def by (blast intro: timer_ok_accept)
  then show ?thesis using assms(1) h unfolding watch_ok_def by simp
next
  case PeerActivity
  then have h: "h = g\<lparr>gr_activityCh := False, gr_watch := Armed (gr_now g + peerTimeout)\<rparr>" "gr_activityCh g"
      "gr_watch g \<noteq> PeerWatchDone"
    using assms(2) by (auto split: if_splits)
  have w: "gr_accepts g \<noteq> []" "\<forall>a \<in> set (gr_accepts g). a \<le> gr_now g"
      "timer_ok (gr_now g) (gr_accepts g) (gr_activityCh g) (gr_peerTimeoutCh g) (gr_watch g)"
    using assms(1) h(2) unfolding watch_ok_def by blast+
  have "\<exists>a \<in> set (gr_accepts g). a \<le> gr_now g" using w(1,2) by (cases "gr_accepts g") auto
  moreover have "\<not> gr_peerTimeoutCh g" using w(3) h(3) by (cases "gr_watch g") simp_all
  ultimately show ?thesis using assms(1) w(2) unfolding watch_ok_def h(1) by simp
next
  case PeerFired
  then obtain d where d: "gr_watch g = Armed d" "d \<le> gr_now g"
      "h = g\<lparr>gr_watch := PeerWatchDone, gr_peerTimeoutCh := True\<rparr>"
    using assms(2) by (auto split: if_splits peer_watch.splits)
  have w: "timer_ok (gr_now g) (gr_accepts g) (gr_activityCh g) (gr_peerTimeoutCh g) (Armed d)"
    using assms(1) d(1) unfolding watch_ok_def by simp
  then have "\<exists>a \<in> set (gr_accepts g). a + peerTimeout \<le> gr_now g"
    using d(2) by (auto intro: order_trans)
  then show ?thesis using assms(1) unfolding watch_ok_def d(3) by simp
next
  case PeerCtxDone
  then have h: "h = g\<lparr>gr_watch := PeerWatchDone\<rparr>" "gr_watch g \<noteq> PeerWatchDone"
    using assms(2) by (auto split: if_splits)
  have w: "timer_ok (gr_now g) (gr_accepts g) (gr_activityCh g) (gr_peerTimeoutCh g) (gr_watch g)"
    using assms(1) unfolding watch_ok_def by blast
  have "\<not> gr_peerTimeoutCh g" using w h(2) by (cases "gr_watch g") simp_all
  then show ?thesis using assms(1) unfolding watch_ok_def h(1) by simp
next
  case (AcceptError err)
  then have h: "\<not> gr_serving h" "gr_errCh h = gr_errCh g \<or> gr_errCh h = Some (AcceptFailed err)"
      "gr_now h = gr_now g" "gr_accepts h = gr_accepts g" "gr_activityCh h = gr_activityCh g"
      "gr_peerTimeoutCh h = gr_peerTimeoutCh g" "gr_watch h = gr_watch g"
    using assms(2) by (auto split: if_splits)
  show ?thesis using assms(1) h(1,2) unfolding watch_ok_def h(3-7) by auto
next
  case (ConnEvent j ce)
  then obtain cs m where "h = g\<lparr>gr_conns := cs, gr_metrics := m\<rparr>" using assms(2) by (auto split: if_splits)
  then show ?thesis using assms(1) unfolding watch_ok_def by simp
next
  case (MainDone r)
  then have "h = g\<lparr>gr_result := Some r\<rparr>" using assms(2) by (simp split: if_splits)
  then show ?thesis using assms(1) unfolding watch_ok_def by simp
next
  case Signal
  then have "h = g\<lparr>gr_ctxDone := True\<rparr>" using assms(2) by (simp split: if_splits)
  then show ?thesis using assms(1) unfolding watch_ok_def by simp
qed

definition result_ok :: "gw_run \<Rightarrow> bool" where
  "result_ok g \<longleftrightarrow> (\<forall>r. gr_result g = Some r \<longrightarrow> main_select r g)"

lemma result_ok_step: "gw_exec e g = Some h \<Longrightarrow> result_ok h"
proof -
  assume e: "gw_exec e g = Some h"
  show "result_ok h"
  proof (cases e)
    case (MainDone r)
    with e show ?thesis by (auto simp: result_ok_def main_select_def split: if_splits gw_result.splits)
  next
    case PeerFired
    with e show ?thesis by (auto simp: result_ok_def split: if_splits peer_watch.splits)
  qed (use e in \<open>auto simp: result_ok_def split: if_splits\<close>)
qed

definition gw_inv :: "gw_run \<Rightarrow> bool" where
  "gw_inv g \<longleftrightarrow> conns_inv g \<and> watch_ok g \<and> result_ok g"

interpretation gw_machine: state_machine gw_init gw_step gw_inv
proof
  fix g assume "gw_init g"
  then show "gw_inv g"
    by (auto simp: gw_init_def gw_inv_def gw_run_start_def conns_inv_def watch_ok_def result_ok_def
        newGatewayMetrics_def)
next
  fix g h assume i: "gw_inv g" and "gw_step g h"
  then obtain e where e: "gw_exec e g = Some h" by (blast elim: gw_step.cases)
  show "gw_inv h"
    using i conns_inv_step [OF _ e] watch_ok_step [OF _ e] result_ok_step [OF e] by (simp add: gw_inv_def)
qed

abbreviation gw_exec_list :: "gw_event list \<Rightarrow> gw_run \<Rightarrow> gw_run option" where
  "gw_exec_list \<equiv> run_events gw_exec"

lemma gw_exec_list_reach: "reach init gw_step s \<Longrightarrow> gw_exec_list es s = Some t \<Longrightarrow> reach init gw_step t"
  by (rule run_events_reach) (rule gw_step)

definition ex_start :: gw_run where
  "ex_start = gw_run_start 0 (newGatewayMetrics ''db'' ''team'' ''h'' ''5432'')"

lemma ex_start_reach: "reach gw_init gw_step ex_start"
  by (rule reach_init) (unfold gw_init_def ex_start_def, blast)

definition ex_session :: "gw_event list" where
  "ex_session = [Accept, PeerActivity, ConnEvent 0 ConnBegin, ConnEvent 0 DialOk, ConnEvent 0 (CopyUpDone 7)]"

section \<open>Properties\<close>

text \<open>
  C39: The gateway's connections and its metrics agree in every reachable state. The totals are
  those of the accepted connections whose goroutine has begun, the gauge is the number of
  those still at work and so never negative, and the byte counters are the bytes of the
  finished copies. A connection whose goroutine has ended has both of its sides closed; while
  it copies, the end of one direction shuts the other side for writing and nothing else.
\<close>

theorem gateway_accounting:
  assumes "reach gw_init gw_step g"
  shows "tcpConnectionsTotal (gr_metrics g) = length (filter (\<lambda>c. cn_pc c \<noteq> Accepted) (gr_conns g)) \<and>
    tcpConnectionsActive (gr_metrics g) = int (length (filter conn_running (gr_conns g))) \<and>
    tcpReceivedBytes (gr_metrics g) = (\<Sum>c \<leftarrow> gr_conns g. copied (cn_up c)) \<and>
    tcpSentBytes (gr_metrics g) = (\<Sum>c \<leftarrow> gr_conns g. copied (cn_down c)) \<and>
    (\<forall>c \<in> set (gr_conns g).
       (cn_pc c = Done \<longrightarrow> \<not> cn_srcOpen c \<and> \<not> cn_dstOpen c) \<and>
       (cn_pc c = Copying \<longrightarrow> cn_srcOpen c \<and> cn_dstOpen c \<and>
          (cn_dstWrite c \<longleftrightarrow> cn_up c = None) \<and> (cn_srcWrite c \<longleftrightarrow> cn_down c = None)))"
proof -
  have i: "conns_inv g" using gw_machine.reach_inv [OF assms] by (simp add: gw_inv_def)
  have "length (filter (\<lambda>c. cn_pc c \<noteq> Accepted) xs) = (\<Sum>c \<leftarrow> xs. if cn_pc c = Accepted then 0 else 1)"
    "length (filter conn_running xs) = (\<Sum>c \<leftarrow> xs. if conn_running c then 1 else 0)" for xs
    by (induction xs) auto
  with i show ?thesis by (auto simp: conns_inv_def conn_ok_def)
qed

theorem gateway_accounting_witness:
  "\<exists>g. gw_exec_list ex_session ex_start = Some g \<and> reach gw_init gw_step g \<and>
     tcpConnectionsActive (gr_metrics g) = 1 \<and> tcpReceivedBytes (gr_metrics g) = 7"
proof -
  obtain g where g: "gw_exec_list ex_session ex_start = Some g" "map cn_pc (gr_conns g) = [Copying]"
      "map cn_up (gr_conns g) = [Some 7]"
    by (simp add: ex_session_def ex_start_def gw_run_start_def new_conn_def)
  have r: "reach gw_init gw_step g" by (rule gw_exec_list_reach [OF ex_start_reach g(1)])
  obtain c where c: "gr_conns g = [c]" "cn_pc c = Copying" "cn_up c = Some 7" using g(2,3) by auto
  from gateway_accounting [OF r] g r c show ?thesis by (simp add: conn_running_def copied_def)
qed

text \<open>
  C19: The gateway gives up only on a tunnel that was used and then left. It ends with a timeout
  only if a peer connected at least an hour ago; when the timer fires, every connection that
  was accepted since it was set is one whose notice is still in the channel; and an error of
  the proxy that ends it is an error of accepting.
\<close>

theorem gateway_timeout:
  assumes "reach gw_init gw_step g"
  shows "(gr_result g = Some PeerTimedOut \<longrightarrow> (\<exists>a \<in> set (gr_accepts g). a + peerTimeout \<le> gr_now g)) \<and>
    (\<forall>h. gw_exec PeerFired g = Some h \<longrightarrow> gr_accepts g \<noteq> [] \<and>
       ((\<forall>a \<in> set (gr_accepts g). a + peerTimeout \<le> gr_now g) \<or> gr_activityCh g)) \<and>
    (\<forall>e. gr_result g = Some (ServeFailed e) \<longrightarrow> (\<exists>err. e = AcceptFailed err))"
proof -
  have w: "watch_ok g" and r: "result_ok g"
    using gw_machine.reach_inv [OF assms] by (simp_all add: gw_inv_def)
  have "\<exists>a \<in> set (gr_accepts g). a + peerTimeout \<le> gr_now g" if "gr_result g = Some PeerTimedOut"
  proof -
    have f: "gr_peerTimeoutCh g" using r that by (simp add: result_ok_def main_select_def)
    then have "gr_watch g = PeerWatchDone" using w by (cases "gr_watch g") (auto simp: watch_ok_def)
    with w f show ?thesis by (simp add: watch_ok_def)
  qed
  moreover have "gr_accepts g \<noteq> [] \<and> ((\<forall>a \<in> set (gr_accepts g). a + peerTimeout \<le> gr_now g) \<or> gr_activityCh g)"
    if fired: "gw_exec PeerFired g = Some h" for h
  proof -
    obtain d where "gr_watch g = Armed d" "d \<le> gr_now g" using fired by (auto split: if_splits peer_watch.splits)
    with w show ?thesis by (fastforce simp: watch_ok_def)
  qed
  moreover have "\<exists>err. e = AcceptFailed err" if "gr_result g = Some (ServeFailed e)" for e
    using r w that by (simp add: result_ok_def main_select_def watch_ok_def)
  ultimately show ?thesis by blast
qed

definition ex_leave :: "gw_event list" where
  "ex_leave = ex_session @ [Passes 3600000000000, PeerFired, MainDone PeerTimedOut]"

theorem gateway_timeout_witness:
  "\<exists>g. gw_exec_list ex_leave ex_start = Some g \<and> reach gw_init gw_step g \<and> gr_result g = Some PeerTimedOut \<and>
     gr_accepts g = [0] \<and> peerTimeout \<le> gr_now g"
proof -
  obtain g where g: "gw_exec_list ex_leave ex_start = Some g" "gr_result g = Some PeerTimedOut" "gr_accepts g = [0]"
    by (simp add: ex_leave_def ex_session_def ex_start_def gw_run_start_def new_conn_def peerTimeout_def
        main_select_def)
  have r: "reach gw_init gw_step g" by (rule gw_exec_list_reach [OF ex_start_reach g(1)])
  from gateway_timeout [OF r] g r show ?thesis by simp
qed

text \<open>A connection that is busy for longer than the timeout is cut: only accepting counts as activity.\<close>

lemma busy_connection_cut:
  "\<exists>g. gw_exec_list ex_leave ex_start = Some g \<and> gr_result g = Some PeerTimedOut \<and>
     map cn_pc (gr_conns g) = [Copying] \<and> tcpConnectionsActive (gr_metrics g) = 1"
  by (simp add: ex_leave_def ex_session_def ex_start_def gw_run_start_def new_conn_def peerTimeout_def
      main_select_def newGatewayMetrics_def)

text \<open>Without a first connection the timer is never set.\<close>

lemma unused_gateway_waits:
  assumes "reach gw_init gw_step g" "gr_accepts g = []"
  shows "gr_result g \<noteq> Some PeerTimedOut \<and> gw_exec PeerFired g = None"
proof -
  have w: "watch_ok g" and r: "result_ok g"
    using gw_machine.reach_inv [OF assms(1)] by (simp_all add: gw_inv_def)
  then have "\<not> gr_peerTimeoutCh g" using assms(2) by (cases "gr_watch g") (auto simp: watch_ok_def)
  with r w assms(2) show ?thesis
    by (cases "gr_watch g") (auto simp: result_ok_def main_select_def watch_ok_def)
qed

end
