(* ===== verification/Gateway_Env.thy ===== *)
theory Gateway_Env
  imports Gateway
begin

text \<open>
  What the reconciler writes into the environment of a gateway pod is what the gateway reads
  from it, and where the gateway connects to is what its network policy admits.
\<close>

section \<open>From the reconciler to the gateway\<close>

text \<open>The environment of a container is its list of variables.\<close>

definition pod_env :: "EnvVar list \<Rightarrow> environment" where
  "pod_env evs key = (case find (\<lambda>v. ev_Name v = key) evs of Some v \<Rightarrow> ev_Value v | None \<Rightarrow> '''')"

lemma requireEnv_gateway_Some:
  "TrimSpace (env key) = env key \<Longrightarrow> env key \<noteq> '''' \<Longrightarrow> requireEnv_gateway env key = Some (env key)"
  by (simp add: requireEnv_gateway_def)

text \<open>A value that reaches the gateway as it is: not blank, and without blanks around it.\<close>

definition clean :: "string \<Rightarrow> bool" where "clean s \<longleftrightarrow> s \<noteq> '''' \<and> TrimSpace s = s"

lemma gatewayEnv_values:
  defines "env t getenv \<equiv> pod_env (gatewayEnv getenv t)"
  shows "env t getenv ''TUNNEL_PEER_PUBLIC_KEY'' = ts_ClientPublicKey (t_Spec t)"
    "env t getenv ''TUNNEL_TARGET_HOST'' = tt_Host (ts_Target (t_Spec t))"
    "env t getenv ''TUNNEL_TARGET_PORT'' = Itoa (tt_Port (ts_Target (t_Spec t)))"
    "env t getenv ''TUNNEL_NAME'' = t_Name t" "env t getenv ''TUNNEL_NAMESPACE'' = t_Namespace t"
    "env t getenv ''TUNNEL_TARGET_IP'' = tt_ResolvedIP (ts_Target (t_Spec t))"
  by (simp_all add: env_def pod_env_def gatewayEnv_def Let_def)

lemma gateway_device_ready:
  assumes "gateway_device v6 answers peer host ip port metrics = GwReady g"
  shows "gw_peer g = peer \<and> gw_targetAddr g = targetAddress host ip port \<and>
    d_addr (gw_device g) = IPv4 [10, 0, 0, 2] \<and> gw_listenAddr g = ([10, 0, 0, 2], port) \<and>
    gw_metrics g = metrics \<and> gw_publicKeyValue g \<noteq> None"
  using assms
  by (auto simp: gateway_device_def NewDevice_def newDevice_def TunnelIPGateway_addr Let_def
      split: sum.splits option.splits)

lemma gateway_device_no_exit:
  "gateway_device v6 answers peer host ip port metrics \<noteq> GwExited"
  "gateway_device v6 answers peer host ip port metrics \<noteq> GwFailed InvalidTargetPort calls"
  by (auto simp: gateway_device_def split: sum.splits option.splits prod.splits)

lemma gateway_start_env:
  assumes "clean (ts_ClientPublicKey (t_Spec t))" and "clean (tt_Host (ts_Target (t_Spec t)))"
    and "clean (t_Name t)" and "clean (t_Namespace t)"
    and "TrimSpace (tt_ResolvedIP (ts_Target (t_Spec t))) = tt_ResolvedIP (ts_Target (t_Spec t))"
    and "in_int64 (tt_Port (ts_Target (t_Spec t)))"
  shows "gateway_start v6 answers (pod_env (gatewayEnv getenv t)) =
    (case ga_parseKey answers (ts_ClientPublicKey (t_Spec t)) of
       Inl err \<Rightarrow> GwFailed (ParsePeerKeyFailed err) []
     | Inr peer \<Rightarrow> gateway_device v6 answers peer (tt_Host (ts_Target (t_Spec t)))
         (tt_ResolvedIP (ts_Target (t_Spec t))) (tt_Port (ts_Target (t_Spec t)))
         (newGatewayMetrics (t_Name t) (t_Namespace t) (tt_Host (ts_Target (t_Spec t)))
           (Itoa (tt_Port (ts_Target (t_Spec t))))))"
proof -
  have "ParseInt 64 (Itoa (tt_Port (ts_Target (t_Spec t)))) = Some (tt_Port (ts_Target (t_Spec t)))"
    using assms(6) by (intro ParseInt_Itoa) (simp_all add: in_int64_def)
  then show ?thesis
    using assms(1-5) by (simp add: gateway_start_def requireEnv_gateway_def gatewayEnv_values clean_def Let_def)
qed

text \<open>
  C10: The gateway carries out the tunnel it was created for. Started with the environment that
  the reconciler gives its pod, it does not exit for a missing variable or a malformed port.
  When it is up, its peer is the client's key, it listens at the gateway's address in the
  tunnel and on the target's port, it connects to the resolved address of the target, or to
  the host when the target is selected by labels, on that port, and it publishes a key. For a
  target with an address, a TCP connection to what it connects to is admitted by the network
  policy of the tunnel, if a block of one address contains that address.
\<close>

theorem gateway_serves_tunnel:
  assumes "clean (ts_ClientPublicKey (t_Spec t))" and "clean (tt_Host (ts_Target (t_Spec t)))"
    and "clean (t_Name t)" and "clean (t_Namespace t)"
    and "TrimSpace (tt_ResolvedIP (ts_Target (t_Spec t))) = tt_ResolvedIP (ts_Target (t_Spec t))"
    and "in_int64 (tt_Port (ts_Target (t_Spec t)))"
    and "validateTunnelTarget (ts_Target (t_Spec t)) = None"
    and "\<forall>ip. in_cidr (ip @ ''/32'') ip"
  defines "target \<equiv> ts_Target (t_Spec t)"
  shows "case gateway_start v6 answers (pod_env (gatewayEnv getenv t)) of
      GwExited \<Rightarrow> False
    | GwFailed e calls \<Rightarrow> e \<noteq> InvalidTargetPort
    | GwReady g \<Rightarrow>
        ga_parseKey answers (ts_ClientPublicKey (t_Spec t)) = Inr (gw_peer g) \<and>
        gw_listenAddr g = ([10, 0, 0, 2], tt_Port target) \<and> d_addr (gw_device g) = IPv4 [10, 0, 0, 2] \<and>
        fst (statusHandler (gw_publicKeyValue g)) = 200 \<and>
        (case tt_PodSelector target of
           Some sel \<Rightarrow> gw_targetAddr g = JoinHostPort (tt_Host target) (Itoa (tt_Port target))
         | None \<Rightarrow> gw_targetAddr g = JoinHostPort (tt_ResolvedIP target) (Itoa (tt_Port target)) \<and>
             egress_admits in_cidr matches (networkPolicyFor t labels np)
               \<lparr>fl_Protocol = ''TCP'', fl_Port = tt_Port target, fl_DstIP = tt_ResolvedIP target, fl_DstPod = None\<rparr>)"
proof -
  let ?env = "pod_env (gatewayEnv getenv t)" and ?ip = "tt_ResolvedIP target" and ?port = "tt_Port target"
  let ?m = "newGatewayMetrics (t_Name t) (t_Namespace t) (tt_Host target) (Itoa ?port)"
  note start = gateway_start_env [OF assms(1-6), folded target_def, of v6 answers getenv]
  have sel: "?ip = ''''" if "tt_PodSelector target = Some sel" for sel
    using assms(5,7) that by (auto simp: validateTunnelTarget_def target_def Let_def split: if_splits)
  have ip: "?ip \<noteq> ''''" if "tt_PodSelector target = None"
    using assms(7) that by (auto simp: validateTunnelTarget_def target_def Let_def split: if_splits)
  have admits: "egress_admits in_cidr matches (networkPolicyFor t labels np)
      \<lparr>fl_Protocol = ''TCP'', fl_Port = ?port, fl_DstIP = ?ip, fl_DstPod = None\<rparr>"
    if "tt_PodSelector target = None"
    using assms(8) that
    by (simp add: egress_admits_def networkPolicyFor_def targetEgressRule_def Let_def port_admits_def
        peer_admits_def intstrPtr_def target_def)
  show ?thesis
  proof (cases "gateway_start v6 answers ?env")
    case (GwReady g)
    then obtain peer where peer: "ga_parseKey answers (ts_ClientPublicKey (t_Spec t)) = Inr peer"
        "gateway_device v6 answers peer (tt_Host target) ?ip ?port ?m = GwReady g"
      using start by (auto split: sum.splits)
    from gateway_device_ready [OF peer(2)] peer(1) GwReady sel ip admits show ?thesis
      by (auto simp: targetAddress_def statusHandler_def split: option.splits)
  qed (use start gateway_device_no_exit in \<open>auto split: sum.splits\<close>)
qed

definition ex_gw_answers :: gw_answers where
  "ex_gw_answers = \<lparr>ga_parseKey = (\<lambda>s. Inr [1]), ga_privateKey = Inr [2], ga_publicKey = (\<lambda>k. ''pub''),
     ga_wg = ex_answers, ga_listen = None\<rparr>"

lemma clean_bytes: "s \<noteq> [] \<Longrightarrow> hd s \<notin> set space_bytes \<Longrightarrow> last s \<notin> set space_bytes \<Longrightarrow> clean s"
  by (simp add: clean_def TrimSpace_id)

theorem gateway_serves_tunnel_witness:
  "\<exists>g. gateway_start (\<lambda>_. None) ex_gw_answers (pod_env (gatewayEnv (\<lambda>_. '''') sample_tunnel)) = GwReady g \<and>
     gw_targetAddr g = ''10.0.0.10:6379'' \<and> gw_listenAddr g = ([10, 0, 0, 2], 6379)"
proof -
  let ?s = "gateway_start (\<lambda>_. None) ex_gw_answers (pod_env (gatewayEnv (\<lambda>_. '''') sample_tunnel))"
  have clean: "clean (ts_ClientPublicKey (t_Spec sample_tunnel))" "clean (tt_Host (ts_Target (t_Spec sample_tunnel)))"
    "clean (t_Name sample_tunnel)" "clean (t_Namespace sample_tunnel)"
    by (rule clean_bytes; simp add: sample_defs space_bytes_def space_encodings_def)+
  have ip: "TrimSpace (tt_ResolvedIP (ts_Target (t_Spec sample_tunnel))) = tt_ResolvedIP (ts_Target (t_Spec sample_tunnel))"
    by (rule TrimSpace_id) (simp add: sample_defs space_bytes_def space_encodings_def)
  have t: "in_int64 (tt_Port (ts_Target (t_Spec sample_tunnel)))" "tt_PodSelector (ts_Target (t_Spec sample_tunnel)) = None"
    "validateTunnelTarget (ts_Target (t_Spec sample_tunnel)) = None" "tt_Port (ts_Target (t_Spec sample_tunnel)) = 6379"
    "tt_ResolvedIP (ts_Target (t_Spec sample_tunnel)) = ''10.0.0.10''"
    by (simp_all add: sample_tunnel_def in_int64_def) (simp_all add: sample_target_def)
  have j: "JoinHostPort ''10.0.0.10'' (Itoa 6379) = ''10.0.0.10:6379''"
    by (simp add: JoinHostPort_def Itoa_def nat_digits.simps digit_char_def)
  obtain g where g: "?s = GwReady g"
    unfolding gateway_start_env [OF clean ip t(1)]
    by (simp add: ex_gw_answers_def gateway_device_def NewDevice_def newDevice_def TunnelIPGateway_addr
        ex_answers_def Let_def)
  have "\<forall>ip::string. ip @ ''/32'' = ip @ ''/32''" by simp
  from gateway_serves_tunnel [OF clean ip t(1,3), where in_cidr = "\<lambda>c ip. c = ip @ ''/32''" and ?v6.0 = "\<lambda>_. None"
      and answers = ex_gw_answers and getenv = "\<lambda>_. ''''"] g t j show ?thesis by simp
qed

end
