(* ===== verification/Tunnel_System.thy ===== *)
theory Tunnel_System
  imports Operator_Main Forwarder_Main Gateway_Env
begin

text \<open>
  The parts together: the operator process with its reconciler, allocator and configuration
  server, the forwarder processes, and what is between them. A step is one reconciliation, one
  call of the configuration service, one event of a stream, or one update or snapshot handled
  by a forwarder; the processes interleave, stop and are started again at any point. What
  users and Kubernetes do to the cluster is arbitrary.
\<close>

section \<open>State\<close>

text \<open>
  A forwarder process is its identity and its proxy; several processes may have the same
  identity. \<open>sy_served\<close> records, for the statements only, which routes the processes of an
  identity have had.
\<close>

record 'w system =
  sy_op :: "'w operator"
  sy_grpc :: grpc_sys
  sy_fwd :: "nat \<rightharpoonup> string \<times> UDPProxy"
  sy_served :: "(string \<times> int \<times> route) set"

text \<open>The reconciler works on the server that the streams are registered with.\<close>

definition system_operator :: "'w system \<Rightarrow> 'w operator" where
  "system_operator y = (sy_op y)\<lparr>op_ForwarderServer := Some (gs_srv (sy_grpc y))\<rparr>"

definition forwarder_did :: "nat \<Rightarrow> string \<Rightarrow> UDPProxy \<Rightarrow> grpc_sys \<Rightarrow> 'w system \<Rightarrow> 'w system" where
  "forwarder_did pid fid q g y =
     y\<lparr>sy_fwd := (sy_fwd y)(pid \<mapsto> (fid, q)), sy_grpc := g,
       sy_served := sy_served y \<union> {(fid, port, rt). routes q port = Some rt}\<rparr>"

section \<open>Transport\<close>

text \<open>The server without acknowledgements: streams open, send and close, updates are notified.\<close>

inductive grpc_quiet :: "grpc_sys \<Rightarrow> grpc_sys \<Rightarrow> bool" where
  start: "grpc_quiet g (StreamUpdates_start fid g)"
| stream: "StreamUpdates_event e r g = Some h \<Longrightarrow> grpc_quiet g h"
| notify: "grpc_quiet g (grpc_notify u g)"

text \<open>
  What the forwarders rely on of a remote call: one that succeeds ran \<^const>\<open>Ack\<close> on the server;
  one that fails was lost before or after. Meanwhile the streams go on.
\<close>

definition ack_transport :: "grpc_sys ack_rpc \<Rightarrow> bool" where
  "ack_transport rpc \<longleftrightarrow>
     (\<forall>rq g. \<exists>h. grpc_quiet\<^sup>*\<^sup>* g h \<and>
        (case rpc rq g of
           (Inr _, g') \<Rightarrow> fst (Ack rq (gs_srv h)) = Inr () \<and> g' = h\<lparr>gs_srv := snd (Ack rq (gs_srv h))\<rparr>
         | (Inl _, g') \<Rightarrow> g' = h \<or> g' = h\<lparr>gs_srv := snd (Ack rq (gs_srv h))\<rparr>))"

text \<open>A call that is never lost.\<close>

definition direct_rpc :: "grpc_sys ack_rpc" where
  "direct_rpc rq g =
     (case Ack rq (gs_srv g) of
        (Inl e, s) \<Rightarrow> (Inl ''rejected'', g\<lparr>gs_srv := s\<rparr>)
      | (Inr _, s) \<Rightarrow> (Inr (), g\<lparr>gs_srv := s\<rparr>))"

lemma direct_rpc_transport: "ack_transport direct_rpc"
proof -
  have "\<exists>h. grpc_quiet\<^sup>*\<^sup>* g h \<and>
        (case direct_rpc rq g of
           (Inr _, g') \<Rightarrow> fst (Ack rq (gs_srv h)) = Inr () \<and> g' = h\<lparr>gs_srv := snd (Ack rq (gs_srv h))\<rparr>
         | (Inl _, g') \<Rightarrow> g' = h \<or> g' = h\<lparr>gs_srv := snd (Ack rq (gs_srv h))\<rparr>)" for rq g
    by (rule exI [of _ g]) (auto simp: direct_rpc_def split: prod.splits sum.splits)
  then show ?thesis by (simp add: ack_transport_def)
qed

section \<open>Steps\<close>

inductive system_step ::
  "environment \<Rightarrow> 'w TunnelReconciler \<Rightarrow> 'w KubeClient \<Rightarrow> bind_oracle \<Rightarrow> 'w system \<Rightarrow> 'w system \<Rightarrow> bool"
  for env r reader os where
  outside: "system_step env r reader os y (y\<lparr>sy_op := set_world w (sy_op y)\<rparr>)"
| reconcile: "Reconcile r draw req (system_operator y) = (res, s) \<Longrightarrow>
    op_ForwarderServer s = Some (publish tys t (gs_srv (sy_grpc y))) \<Longrightarrow>
    system_step env r reader os y
      (y\<lparr>sy_op := s, sy_grpc := fold (\<lambda>ty. grpc_notify (update_for ty t)) tys (sy_grpc y)\<rparr>)"
| get_config: "GetConfig (Client r) (ForwarderServiceKey r) (op_PortAllocator (sy_op y)) (op_World (sy_op y)) = (res, al, w) \<Longrightarrow>
    system_step env r reader os y (y\<lparr>sy_op := (sy_op y)\<lparr>op_PortAllocator := al, op_World := w\<rparr>\<rparr>)"
| operator_restart: "operator_main env answers (Client r) reader (HttpGet r) (op_World (sy_op y)) = (e, Some (r, s, addr)) \<Longrightarrow>
    system_step env r reader os y (y\<lparr>sy_op := s, sy_grpc := \<lparr>gs_srv = NewForwarderServer, gs_procs = Map.empty\<rparr>\<rparr>)"
| stream: "grpc_quiet (sy_grpc y) g \<Longrightarrow> system_step env r reader os y (y\<lparr>sy_grpc := g\<rparr>)"
| forwarder_start: "system_step env r reader os y (y\<lparr>sy_fwd := (sy_fwd y)(pid \<mapsto> (fid, NewUDPProxy timeout))\<rparr>)"
| forwarder_proxy: "sy_fwd y pid = Some (fid, p) \<Longrightarrow> proxy_step os p q \<Longrightarrow>
    system_step env r reader os y (forwarder_did pid fid q (sy_grpc y) y)"
| forwarder_update: "sy_fwd y pid = Some (fid, p) \<Longrightarrow> ack_transport rpc \<Longrightarrow>
    handleUpdate os rpc fid update (p, sy_grpc y) = (res, q, g) \<Longrightarrow>
    system_step env r reader os y (forwarder_did pid fid q g y)"
| forwarder_snapshot: "sy_fwd y pid = Some (fid, p) \<Longrightarrow> ack_transport rpc \<Longrightarrow>
    distinct (desired_ports (GetTunnels snapshot)) \<Longrightarrow>
    applySnapshot os rpc fid snapshot (p, sy_grpc y) = (res, q, g) \<Longrightarrow>
    system_step env r reader os y (forwarder_did pid fid q g y)"

text \<open>The operator has just started; no forwarder runs.\<close>

definition system_init ::
  "environment \<Rightarrow> 'w TunnelReconciler \<Rightarrow> 'w KubeClient \<Rightarrow> 'w system \<Rightarrow> bool" where
  "system_init env r reader y \<longleftrightarrow>
     (\<exists>answers w e addr. operator_main env answers (Client r) reader (HttpGet r) w = (e, Some (r, sy_op y, addr))) \<and>
     sy_grpc y = \<lparr>gs_srv = NewForwarderServer, gs_procs = Map.empty\<rparr> \<and> sy_fwd y = Map.empty \<and> sy_served y = {}"

text \<open>A reconciliation is always a step: what it did to the server is what it published.\<close>

lemma fold_notify:
  "gs_srv (fold (\<lambda>ty. grpc_notify (update_for ty t)) tys g) = publish tys t (gs_srv g)"
  by (induction tys arbitrary: g) (simp_all add: publish_def grpc_notify_def)

lemma reconcile_steps:
  assumes "Reconcile r draw req (system_operator y) = (res, s)"
  shows "\<exists>z. system_step env r reader os y z \<and> sy_op z = s \<and> Some (gs_srv (sy_grpc z)) = op_ForwarderServer s"
proof -
  obtain tys t where p: "op_ForwarderServer s = Some (publish tys t (gs_srv (sy_grpc y)))"
    using Reconcile_publishes [OF assms] by (auto simp: publishes_only_def system_operator_def)
  show ?thesis
    using system_step.reconcile [OF assms p] p
    by (intro exI [of _ "y\<lparr>sy_op := s, sy_grpc := fold (\<lambda>ty. grpc_notify (update_for ty t)) tys (sy_grpc y)\<rparr>"])
      (simp add: fold_notify)
qed

section \<open>Invariant\<close>

text \<open>Whatever an identity has acknowledged, a process of that identity has served, or something newer.\<close>

definition acks_served :: "(string \<times> int \<times> route) set \<Rightarrow> ForwarderServer \<Rightarrow> bool" where
  "acks_served S s \<longleftrightarrow>
     (\<forall>f k. 0 < acked s f k \<longrightarrow>
        (\<exists>port rt. (f, port, rt) \<in> S \<and> tunnelKey (rt_tunnelNamespace rt) (rt_tunnelName rt) = k \<and>
           acked s f k \<le> rt_revision rt))"

definition allocator_ok :: "environment \<Rightarrow> 'w operator \<Rightarrow> bool" where
  "allocator_ok env s \<longleftrightarrow>
     (\<exists>al. op_PortAllocator s = Some al \<and> alloc_inv al \<and>
        minPort al = minPort (oc_allocator (main_config env)) \<and> maxPort al = maxPort (oc_allocator (main_config env)))"

definition system_inv :: "environment \<Rightarrow> 'w system \<Rightarrow> bool" where
  "system_inv env y \<longleftrightarrow>
     grpc_inv (sy_grpc y) \<and> allocator_ok env (sy_op y) \<and> acks_served (sy_served y) (gs_srv (sy_grpc y)) \<and>
     (\<forall>pid fid p. sy_fwd y pid = Some (fid, p) \<longrightarrow> proxy_inv p)"

lemma acks_served_mono: "acks_served S s \<Longrightarrow> S \<subseteq> T \<Longrightarrow> acks_served T s"
  unfolding acks_served_def by blast

lemma acks_served_less:
  assumes "acks_served S s" "\<And>f k. acked s' f k \<in> {acked s f k, 0}"
  shows "acks_served S s'"
  unfolding acks_served_def
proof (intro allI impI)
  fix f k assume "0 < acked s' f k"
  then have eq: "acked s' f k = acked s f k" using assms(2) [of f k] by auto
  with assms(1) \<open>0 < acked s' f k\<close>
  show "\<exists>port rt. (f, port, rt) \<in> S \<and> tunnelKey (rt_tunnelNamespace rt) (rt_tunnelName rt) = k \<and> acked s' f k \<le> rt_revision rt"
    unfolding acks_served_def eq by blast
qed

lemma acks_served_ack:
  assumes "acks_served S s" "(AckForwarderId rq, port, rt) \<in> S"
    and "tunnelKey (rt_tunnelNamespace rt) (rt_tunnelName rt) = ack_key rq" "AckRevision rq \<le> rt_revision rt"
  shows "acks_served S (snd (Ack rq s))"
proof (cases "fst (Ack rq s)")
  case (Inl e)
  with assms(1) show ?thesis by (simp add: server.ack_err)
next
  case (Inr u)
  then have ok: "fst (Ack rq s) = Inr ()" by simp
  show ?thesis
    unfolding acks_served_def
  proof (intro allI impI)
    fix f k assume pos: "0 < acked (snd (Ack rq s)) f k"
    show "\<exists>port rt. (f, port, rt) \<in> S \<and> tunnelKey (rt_tunnelNamespace rt) (rt_tunnelName rt) = k \<and>
        acked (snd (Ack rq s)) f k \<le> rt_revision rt"
    proof (cases "f = AckForwarderId rq \<and> k = ack_key rq \<and> acked s f k < AckRevision rq")
      case True
      with assms(2-4) server.ack_acked [OF ok, of f k] show ?thesis
        by (intro exI [of _ port] exI [of _ rt]) auto
    next
      case False
      then have "acked (snd (Ack rq s)) f k = acked s f k" using server.ack_acked [OF ok, of f k] by auto
      with pos assms(1) show ?thesis unfolding acks_served_def by auto
    qed
  qed
qed

lemma acked_return:
  "acked (removeStream r i s) f k =
     (if f = i \<and> \<not> connectedLocked (removeStream r i s) i then 0 else acked s f k)"
  by (simp add: acked_def removeStream_simps)

lemma acked_streams: "acked (s\<lparr>streams := m\<rparr>) f k = acked s f k"
  by (simp add: acked_def)

lemma event_acked:
  assumes "StreamUpdates_event e r g = Some h"
  shows "acked (gs_srv h) f k \<in> {acked (gs_srv g) f k, 0}"
  using assms
  by (auto simp: Let_def StreamUpdates_return_def acked_streams acked_return
      split: option.splits proc_state.splits stream_event.splits if_splits list.splits)

lemma quiet_acked:
  assumes "grpc_quiet g h"
  shows "acked (gs_srv h) f k \<in> {acked (gs_srv g) f k, 0}"
  using assms
proof cases
  case (start fid)
  then show ?thesis
    by (auto simp: StreamUpdates_start_def streamID_def addStream_def acked_def Let_def)
next
  case (stream e r)
  then show ?thesis by (rule event_acked)
next
  case (notify u)
  then show ?thesis by (simp add: grpc_notify_def server.notify_acked)
qed

lemma quiet_grpc: "grpc_quiet g h \<Longrightarrow> grpc_step g h"
  by (erule grpc_quiet.cases) (auto intro: grpc_step.intros simp del: StreamUpdates_event.simps)

lemma quiet_inv:
  assumes "grpc_quiet\<^sup>*\<^sup>* g h" "grpc_inv g" "acks_served S (gs_srv g)"
  shows "grpc_inv h \<and> acks_served S (gs_srv h)"
  using assms(1)
proof (induction rule: rtranclp_induct)
  case base
  then show ?case using assms(2,3) by simp
next
  case (step x z)
  then show ?case
    using grpc_machine.inv_step [OF _ quiet_grpc] acks_served_less [OF _ quiet_acked] by blast
qed

text \<open>A remote call about a mapping that is served.\<close>

lemma served_route:
  assumes "serves q m"
  obtains rt where "routes q (GetForwarderPort m) = Some rt" "GetRevision m \<le> rt_revision rt"
    "tunnelKey (rt_tunnelNamespace rt) (rt_tunnelName rt) = tunnelKey (GetTunnelNamespace m) (GetTunnelName m)"
proof -
  obtain rt where rt: "routes q (GetForwarderPort m) = Some rt"
      "rt = mapping_route m \<or> same_tunnel rt (mapping_route m) \<and> GetRevision m < rt_revision rt"
    using assms by (auto simp: serves_def)
  from rt(2) have "GetRevision m \<le> rt_revision rt \<and> rt_tunnelName rt = GetTunnelName m \<and>
      rt_tunnelNamespace rt = GetTunnelNamespace m"
    by (elim disjE) (simp_all add: mapping_route_def same_tunnel_def)
  with rt(1) that show thesis by simp
qed

lemma mapping_ack_getters:
  "AckForwarderId (mapping_ack fid (Some m)) = fid"
  "ack_key (mapping_ack fid (Some m)) = tunnelKey (GetTunnelNamespace (Some m)) (GetTunnelName (Some m))"
  "AckRevision (mapping_ack fid (Some m)) = GetRevision (Some m)"
  by (simp_all add: mapping_ack_def ack_getter_defs getter_defs proto_get_def)

lemma rpc_inv:
  assumes "ack_transport rpc" "grpc_inv g" "acks_served S (gs_srv g)" "m \<noteq> None" "serves q m"
    and "{(fid, port, rt). routes q port = Some rt} \<subseteq> S"
  shows "grpc_inv (snd (rpc (mapping_ack fid m) g)) \<and> acks_served S (gs_srv (snd (rpc (mapping_ack fid m) g)))"
proof -
  let ?rq = "mapping_ack fid m"
  obtain h where h: "grpc_quiet\<^sup>*\<^sup>* g h"
      "case rpc ?rq g of
         (Inr _, g') \<Rightarrow> fst (Ack ?rq (gs_srv h)) = Inr () \<and> g' = h\<lparr>gs_srv := snd (Ack ?rq (gs_srv h))\<rparr>
       | (Inl _, g') \<Rightarrow> g' = h \<or> g' = h\<lparr>gs_srv := snd (Ack ?rq (gs_srv h))\<rparr>"
    using assms(1) [unfolded ack_transport_def, THEN spec [of _ ?rq], THEN spec [of _ g]] by (elim exE conjE)
  have hi: "grpc_inv h" "acks_served S (gs_srv h)" using quiet_inv [OF h(1) assms(2,3)] by blast+
  obtain x where x: "m = Some x" using assms(4) by blast
  obtain rt where rt: "routes q (GetForwarderPort m) = Some rt" "GetRevision m \<le> rt_revision rt"
    "tunnelKey (rt_tunnelNamespace rt) (rt_tunnelName rt) = tunnelKey (GetTunnelNamespace m) (GetTunnelName m)"
    using served_route [OF assms(5)] by blast
  have "acks_served S (snd (Ack ?rq (gs_srv h)))"
    by (rule acks_served_ack [OF hi(2), of _ "GetForwarderPort m" rt]) (use rt assms(6) x in \<open>auto simp: mapping_ack_getters\<close>)
  moreover have "grpc_inv (h\<lparr>gs_srv := snd (Ack ?rq (gs_srv h))\<rparr>)"
    by (rule grpc_machine.inv_step [OF hi(1) grpc_step.ack])
  moreover have "snd (rpc ?rq g) = h \<or> snd (rpc ?rq g) = h\<lparr>gs_srv := snd (Ack ?rq (gs_srv h))\<rparr>"
    using h(2) by (auto split: prod.splits sum.splits)
  ultimately show ?thesis using hi by auto
qed

lemma rpcs_inv:
  assumes "ack_transport rpc" "{(fid, port, rt). routes q port = Some rt} \<subseteq> S"
  shows "grpc_inv g \<Longrightarrow> acks_served S (gs_srv g) \<Longrightarrow> \<forall>m \<in> set ms. m \<noteq> None \<and> serves q m \<Longrightarrow>
    grpc_inv (fold (\<lambda>m w. snd (rpc (mapping_ack fid m) w)) ms g) \<and>
    acks_served S (gs_srv (fold (\<lambda>m w. snd (rpc (mapping_ack fid m) w)) ms g))"
proof (induction ms arbitrary: g)
  case (Cons m ms)
  have "grpc_inv (snd (rpc (mapping_ack fid m) g)) \<and> acks_served S (gs_srv (snd (rpc (mapping_ack fid m) g)))"
    using rpc_inv [OF assms(1) Cons.prems(1,2) _ _ assms(2)] Cons.prems(3) by simp
  then show ?case using Cons by simp
qed simp

lemma forwarder_inv:
  assumes "system_inv env y" "proxy_inv q"
    and "\<And>S. {(fid, port, rt). routes q port = Some rt} \<subseteq> S \<Longrightarrow> acks_served S (gs_srv (sy_grpc y)) \<Longrightarrow>
      grpc_inv g \<and> acks_served S (gs_srv g)"
  shows "system_inv env (forwarder_did pid fid q g y)"
proof -
  let ?S = "sy_served y \<union> {(fid, port, rt). routes q port = Some rt}"
  note y = assms(1) [unfolded system_inv_def]
  have "acks_served ?S (gs_srv (sy_grpc y))"
    by (rule acks_served_mono [OF conjunct1 [OF conjunct2 [OF conjunct2 [OF y]]]]) (rule Un_upper1)
  from assms(3) [OF Un_upper2 this] have "grpc_inv g \<and> acks_served ?S (gs_srv g)" .
  moreover have "proxy_inv p" if "((sy_fwd y)(pid \<mapsto> (fid, q))) i = Some (f, p)" for i f p
    using that y assms(2) by (cases "i = pid") auto
  ultimately show ?thesis using y by (simp add: system_inv_def forwarder_did_def)
qed

lemma config_loop_allocator:
  "config_loop K ts (Some al) w = (x, al', w') \<Longrightarrow> alloc_inv al \<Longrightarrow>
   \<exists>b. al' = Some b \<and> alloc_inv b \<and> minPort b = minPort al \<and> maxPort b = maxPort al"
proof (induction ts arbitrary: al w x al' w')
  case (Cons t ts)
  let ?b = "LoadExisting (tunnelKey (t_Namespace t) (t_Name t)) (ForwarderPort (t_Status t)) al"
  have b: "alloc_inv ?b" "minPort ?b = minPort al" "maxPort ?b = maxPort al"
    using allocator.inv_load [OF Cons.prems(2)] allocator.bounds_load by blast+
  show ?case
  proof (cases "skip_tunnel t")
    case True
    then show ?thesis using Cons.IH Cons.prems by simp
  next
    case False
    obtain y w1 where y: "tunnelMapping K t w = (y, w1)" by force
    obtain z al2 w2 where z: "config_loop K ts (Some ?b) w1 = (z, al2, w2)" by (metis prod_cases3)
    have "al' = Some ?b \<or> al' = al2"
      using Cons.prems(1) False y z by (cases y; cases z) (auto simp: Let_def)
    then show ?thesis using Cons.IH [OF z b(1)] b by auto
  qed
qed simp

lemma GetConfig_allocator:
  assumes "GetConfig K key (Some al) w = (x, al', w')" "alloc_inv al"
  shows "\<exists>b. al' = Some b \<and> alloc_inv b \<and> minPort b = minPort al \<and> maxPort b = maxPort al"
proof (cases "kListTunnels K w")
  case (Pair l w1)
  show ?thesis
  proof (cases l)
    case (Inl e)
    then show ?thesis using assms Pair by (auto simp: GetConfig_def)
  next
    case (Inr ts)
    obtain y b w2 where c: "config_loop K ts (Some al) w1 = (y, b, w2)" by (metis prod_cases3)
    have "al' = b" using assms(1) Pair Inr c by (cases y) (simp_all add: GetConfig_def split: prod.splits)
    then show ?thesis using config_loop_allocator [OF c assms(2)] by simp
  qed
qed

lemma started_allocator:
  assumes "operator_main env answers kc reader http w = (e, Some (r, s, addr))"
  shows "allocator_ok env s"
proof -
  have su: "operator_setup env kc reader http w = (r, s)" using assms by (simp add: operator_main_started)
  let ?a = "oc_allocator (main_config env)"
  have l: "alloc_inv (fold load_tunnel ts ?a) \<and> minPort (fold load_tunnel ts ?a) = minPort ?a \<and>
      maxPort (fold load_tunnel ts ?a) = maxPort ?a" for ts
    unfolding load_tunnels_fold
    using allocator.load_list_inv [OF main_allocator_inv] allocator.load_list_bounds by simp
  have "\<exists>ts. fst (loadExistingAllocations reader ?a w) = fold load_tunnel ts ?a"
    by (cases "kListTunnels reader w"; cases "fst (kListTunnels reader w)")
      (auto simp: loadExistingAllocations_def intro: exI [of _ "[]"])
  then show ?thesis
    using operator_setup_allocator(1) [OF su] l unfolding allocator_ok_def by metis
qed

lemma fold_quiet: "grpc_quiet\<^sup>*\<^sup>* g (fold (\<lambda>ty. grpc_notify (update_for ty t)) tys g)"
proof (induction tys arbitrary: g)
  case (Cons ty tys)
  show ?case
    using converse_rtranclp_into_rtranclp [OF grpc_quiet.notify Cons] by simp
qed simp

interpretation whole: state_machine "system_init env r reader" "system_step env r reader os" "system_inv env"
proof (unfold_locales, goal_cases)
  case (1 y)
  then have g: "sy_grpc y = \<lparr>gs_srv = NewForwarderServer, gs_procs = Map.empty\<rparr>" and f: "sy_fwd y = Map.empty"
    by (simp_all add: system_init_def)
  obtain answers w e addr where "operator_main env answers (Client r) reader (HttpGet r) w = (e, Some (r, sy_op y, addr))"
    using 1 by (auto simp: system_init_def)
  then have a: "allocator_ok env (sy_op y)" by (rule started_allocator)
  have "grpc_inv (sy_grpc y)" by (rule grpc_machine.inv_init) (simp add: grpc_init_def g)
  moreover have "acks_served S NewForwarderServer" for S
    by (simp add: acks_served_def acked_def NewForwarderServer_def)
  ultimately show ?case using a f g by (simp add: system_inv_def)
next
  case (2 y z)
  note y = 2(1) [unfolded system_inv_def]
  from 2(2) show ?case
  proof cases
    case (outside w)
    then show ?thesis using y by (simp add: system_inv_def allocator_ok_def)
  next
    case (reconcile draw req res s tys t)
    have "allocator_ok env s"
      using y Reconcile_publishes [OF reconcile(2)]
      by (auto simp: allocator_ok_def publishes_only_def system_operator_def)
    then show ?thesis
      using y quiet_inv [OF fold_quiet, of "sy_grpc y" "sy_served y"] reconcile(1) by (simp add: system_inv_def)
  next
    case (get_config res al w)
    obtain b where b: "op_PortAllocator (sy_op y) = Some b" "alloc_inv b" 
      "minPort b = minPort (oc_allocator (main_config env))" "maxPort b = maxPort (oc_allocator (main_config env))"
      using y unfolding allocator_ok_def by blast
    from GetConfig_allocator [OF get_config(2) [unfolded b(1)] b(2)] b
    have "allocator_ok env ((sy_op y)\<lparr>op_PortAllocator := al, op_World := w\<rparr>)"
      by (auto simp: allocator_ok_def)
    then show ?thesis using y get_config(1) by (simp add: system_inv_def)
  next
    case (operator_restart answers e s addr)
    have "grpc_inv \<lparr>gs_srv = NewForwarderServer, gs_procs = Map.empty\<rparr>"
      by (rule grpc_machine.inv_init) (simp add: grpc_init_def)
    moreover have "acks_served S NewForwarderServer" for S
      by (simp add: acks_served_def acked_def NewForwarderServer_def)
    ultimately show ?thesis
      using y operator_restart(1) started_allocator [OF operator_restart(2)] by (simp add: system_inv_def)
  next
    case (stream g)
    have "grpc_quiet\<^sup>*\<^sup>* (sy_grpc y) g" using stream(2) by blast
    from quiet_inv [OF this, of "sy_served y"] y stream(1) show ?thesis by (simp add: system_inv_def)
  next
    case (forwarder_start pid fid timeout)
    have "proxy_inv p" if "((sy_fwd y)(pid \<mapsto> (fid, NewUDPProxy timeout))) i = Some (f, p)" for i f p
      using that y NewUDPProxy_inv by (cases "i = pid") auto
    then show ?thesis using y forwarder_start by (simp add: system_inv_def)
  next
    case (forwarder_proxy pid fid p q)
    have "proxy_inv q" using y forwarder_proxy(2,3) proxy_machine.inv_step by blast
    from forwarder_inv [OF 2(1) this] y show ?thesis unfolding forwarder_proxy(1) by blast
  next
    case (forwarder_update pid fid p rpc update res q g)
    have p: "proxy_inv p" using y forwarder_update(2) by blast
    note w = handleUpdate_world [OF p forwarder_update(4)]
    show ?thesis
      unfolding forwarder_update(1)
      by (rule forwarder_inv [OF 2(1) conjunct1 [OF w]])
        (use w y rpc_inv [OF forwarder_update(3)] in blast)
  next
    case (forwarder_snapshot pid fid p rpc snapshot res q g)
    have p: "proxy_inv p" using y forwarder_snapshot(2) by blast
    note w = applySnapshot_world [OF p forwarder_snapshot(4,5)]
    show ?thesis
      unfolding forwarder_snapshot(1)
      by (rule forwarder_inv [OF 2(1) conjunct1 [OF w]])
        (use w y rpcs_inv [OF forwarder_snapshot(3)] in blast)
  qed
qed

definition fresh_system :: "'w operator \<Rightarrow> 'w system" where
  "fresh_system s = \<lparr>sy_op = s, sy_grpc = \<lparr>gs_srv = NewForwarderServer, gs_procs = Map.empty\<rparr>,
     sy_fwd = Map.empty, sy_served = {}\<rparr>"

lemma fresh_init:
  assumes "operator_setup env kc reader http w = (r, s)"
  shows "system_init env r reader (fresh_system s)"
proof -
  have "Client r = kc" "HttpGet r = http"
    using assms by (auto simp: operator_setup_def Let_def split: prod.splits)
  moreover have "operator_main env ex_mgr kc reader http w = (None, Some (r, s, oc_grpcAddr (main_config env)))"
    using assms by (simp add: operator_main_started ex_mgr_def)
  ultimately show ?thesis by (auto simp: system_init_def fresh_system_def)
qed

section \<open>A concrete system\<close>

definition sys_env :: environment where
  "sys_env n = (if n = ''POD_NAMESPACE'' then ''sys'' else if n = ''FORWARDER_SERVICE_NAME'' then ''fwd'' else '''')"

text \<open>An HTTP client that reaches a gateway's status handler.\<close>

definition status_response :: "int \<times> string option \<Rightarrow> http_response" where
  "status_response x = \<lparr>hr_StatusCode = fst x,
     hr_PublicKey = (case snd x of None \<Rightarrow> Inl ''EOF'' | Some k \<Rightarrow> Inr k)\<rparr>"

definition ex_http :: "string \<Rightarrow> cluster \<Rightarrow> (string + http_response) \<times> cluster" where
  "ex_http url w = (Inr (status_response (statusHandler (Some ''gk''))), w)"

definition sys_reconciler :: "cluster TunnelReconciler" where
  "sys_reconciler = \<lparr>Client = mem_client, ForwarderServiceKey = \<lparr>ok_Namespace = ''sys'', ok_Name = ''fwd''\<rparr>,
     ForwarderVIP = '''', FetchGatewayStatus = None, HttpGet = ex_http, Getenv = sys_env\<rparr>"

abbreviation ex_world :: cluster where "ex_world \<equiv> op_World (ex_operator ex_tunnel)"

definition sys_operator :: "cluster operator" where
  "sys_operator = snd (operator_setup sys_env mem_client mem_client ex_http ex_world)"

definition ex_sys :: "cluster system" where
  "ex_sys = fresh_system sys_operator"

text \<open>
  What the operator fetches from a gateway: nothing until the gateway listens for its peer,
  afterwards the key that it has published.
\<close>

lemma status_fetched:
  assumes "FetchGatewayStatus r = None"
    and "\<And>url. HttpGet r url w = (Inr (status_response (statusHandler pk)), w)"
  shows "fetcher r ip w = (case pk of None \<Rightarrow> Inl ''gateway not ready: HTTP 503'' | Some k \<Rightarrow> Inr k, w)"
proof -
  have "Itoa 503 = ''503''" by code_simp
  then show ?thesis
    using assms by (simp add: fetcher_def defaultFetchGatewayStatus_def status_response_def statusHandler_def split: option.split)
qed

lemma sys_fetch: "fetcher sys_reconciler ip w = (Inr ''gk'', w)"
  by (subst status_fetched [where pk = "Some ''gk''"]) (simp_all add: sys_reconciler_def ex_http_def)

lemma ex_sys_init: "system_init sys_env sys_reconciler mem_client ex_sys"
proof -
  have "operator_setup sys_env mem_client mem_client ex_http ex_world = (sys_reconciler, sys_operator)"
    by (auto simp: sys_operator_def operator_setup_def sys_reconciler_def main_config_def sys_env_def TrimSpace_def Let_def fun_eq_iff split: prod.split)
  then show ?thesis unfolding ex_sys_def by (rule fresh_init)
qed

abbreviation sys_ready :: "PortAllocator \<Rightarrow> cluster operator" where
  "sys_ready al \<equiv> (ex_operator ex_tunnel)\<lparr>op_PortAllocator := Some al, portAllocationsActive := 0\<rparr>"

lemma sys_run:
  "fst (Reconcile sys_reconciler 0 ex_req (sys_ready al)) = Inr 0"
  "gm_get (cl_tunnels (op_World (snd (Reconcile sys_reconciler 0 ex_req (sys_ready al))))) (okey ex_req) =
     Some (with_status (\<lambda>st. st\<lparr>Phase := TunnelPhaseReady, Message := ''Gateway ready'',
            ForwarderEndpoint := ''1.2.3.4:5''\<rparr>) ex_tunnel)"
  by (simp_all add: eval_defs sys_reconciler_def ex_http_def defaultFetchGatewayStatus_def status_response_def statusHandler_def)

text \<open>The forwarder \<open>f1\<close> connects, starts, and is sent revision 3 of the tunnel.\<close>

definition ex_sent :: "TunnelUpdate option" where
  "ex_sent = Some \<lparr>tu_Type = Some MODIFIED, tu_Tunnel = ex_mapping1 ''a'' 5 ''10.1.0.4:51820'' 3\<rparr>"

definition ex_sys1 :: "cluster system" where
  "ex_sys1 = ex_sys\<lparr>sy_grpc := StreamUpdates_start ''f1'' (sy_grpc ex_sys)\<rparr>"

definition ex_sys2 :: "cluster system" where
  "ex_sys2 = ex_sys1\<lparr>sy_fwd := (sy_fwd ex_sys1)(0 \<mapsto> (''f1'', NewUDPProxy 60))\<rparr>"

definition ex_applied :: "(fw_error + unit) \<times> UDPProxy \<times> grpc_sys" where
  "ex_applied = handleUpdate ex_os direct_rpc ''f1'' ex_sent (NewUDPProxy 60, sy_grpc ex_sys2)"

definition ex_sys3 :: "cluster system" where
  "ex_sys3 = forwarder_did 0 ''f1'' (fst (snd ex_applied)) (snd (snd ex_applied)) ex_sys2"

lemma ex_sys3_reach: "reach (system_init sys_env sys_reconciler mem_client) (system_step sys_env sys_reconciler mem_client ex_os) ex_sys3"
proof -
  let ?step = "system_step sys_env sys_reconciler mem_client ex_os"
  have 0: "reach (system_init sys_env sys_reconciler mem_client) ?step ex_sys"
    by (rule reach_init) (rule ex_sys_init)
  have 1: "?step ex_sys ex_sys1" unfolding ex_sys1_def by (rule system_step.stream) (rule grpc_quiet.start)
  have 2: "?step ex_sys1 ex_sys2" unfolding ex_sys2_def by (rule system_step.forwarder_start)
  have 3: "?step ex_sys2 ex_sys3" unfolding ex_sys3_def
    by (rule system_step.forwarder_update [OF _ direct_rpc_transport, where update = ex_sent and p = "NewUDPProxy 60" and res = "fst ex_applied"])
      (simp_all add: ex_sys2_def ex_applied_def)
  show ?thesis by (rule reach_step [OF reach_step [OF reach_step [OF 0 1] 2] 3])
qed

lemma ex_applied_server: "gs_srv (snd (snd ex_applied)) = ex_server"
proof -
  have f: "fst (ApplyMapping ex_os (ex_mapping1 ''a'' 5 ''10.1.0.4:51820'' 3) (NewUDPProxy 60)) = Inr ()" by code_simp
  then obtain q where q: "ApplyMapping ex_os (ex_mapping1 ''a'' 5 ''10.1.0.4:51820'' 3) (NewUDPProxy 60) = (Inr (), q)"
    by (metis prod.collapse)
  have t: "TrimSpace ''10.1.0.4:51820'' = ''10.1.0.4:51820''" by code_simp
  show ?thesis
    using q t
    by (simp add: ex_applied_def handleUpdate_def ex_sent_def getter_defs Let_def clientAck_def direct_rpc_def
        ex_mapping1_def ex_sys2_def ex_sys1_def ex_sys_def fresh_system_def StreamUpdates_start_def streamID_def addStream_def
        NewForwarderServer_def Ack_def ack_getter_defs connectedLocked_def ex_server_def tunnelKey_def)
qed

lemma sys_client: "Client sys_reconciler = mem_client"
  by (simp add: sys_reconciler_def)

lemma sys_store: "tunnel_store sys_reconciler"
  by (rule mem_store [OF sys_client]) (simp add: sys_fetch)

end
