(* ===== verification/Listener.thy ===== *)
theory Listener
  imports Udp_Proxy
begin

text \<open>
  The data path of one mapped port, \<open>servePort\<close>, \<open>getOrCreateSession\<close>, \<open>pipeResponses\<close> and
  \<open>cleanupIdleSessions\<close> of \<open>pkg/forwarder/proxy.go\<close>: one goroutine that receives from the
  clients, one that expires sessions, and one per session that pipes the gateway's responses
  back, with \<open>RemoveMapping\<close> closing down from outside. A step is one operation on a socket or
  one method that holds a lock; steps of different goroutines interleave in any order. A read
  truncates a datagram to the buffer.
\<close>

section \<open>State\<close>

text \<open>Where the serving goroutine is, with its local variables.\<close>

datatype serve_state =
    Receiving
  | Received string string
  | Missed string string
  | HaveSession string string nat
  | Touched string string nat
  | WriteFailed string nat
  | EntryDeleted nat
  | ServeReturned

datatype pipe_state =
    Reading
  | ReadDone string
  | ReadTouched string
  | PipeFailed
  | PipeDeleted
  | PipeReturned

text \<open>
  \<open>dp_toGateway\<close> and \<open>dp_toClient\<close> record what was written: the session with the client it was
  written for, and the client with the session it was read from. The counters are the metrics
  \<open>ActiveSessions\<close>, \<open>PacketsTotal\<close> and \<open>BytesTotal\<close> of this tunnel.
\<close>

record datapath =
  dp_connOpen :: bool
  dp_ctxDone :: bool
  dp_idleTimeout :: int
  dp_sessions :: SessionMap
  dp_store :: session_store
  dp_next :: nat
  dp_serve :: serve_state
  dp_pipes :: "nat \<rightharpoonup> pipe_state"
  dp_cleanup :: bool
  dp_active :: int
  dp_packetsIn :: nat
  dp_bytesIn :: nat
  dp_packetsOut :: nat
  dp_bytesOut :: nat
  dp_toGateway :: "(nat \<times> string \<times> string) list"
  dp_toClient :: "(string \<times> nat \<times> string) list"

definition dp_start :: "int \<Rightarrow> datapath" where
  "dp_start timeout =
     \<lparr>dp_connOpen = True, dp_ctxDone = False, dp_idleTimeout = timeout, dp_sessions = NewSessionMap,
      dp_store = Map.empty, dp_next = 0, dp_serve = Receiving, dp_pipes = Map.empty,
      dp_cleanup = True, dp_active = 0, dp_packetsIn = 0, dp_bytesIn = 0, dp_packetsOut = 0,
      dp_bytesOut = 0, dp_toGateway = [], dp_toClient = []\<rparr>"

section \<open>servePort and getOrCreateSession\<close>

text \<open>
  What the world does to the serving goroutine: a datagram or an error on the socket, the
  outcome of resolving and dialling the gateway, and of writing to it. The other events are
  the goroutine's own next operation; the last argument is the time.
\<close>

datatype serve_event =
    Recv string string
  | RecvError
  | LookupSession
  | ResolveOrDialFailed
  | DialOk int
  | TouchSession int
  | WriteOk
  | WriteError
  | DeleteEntry
  | CloseSession

fun servePort :: "serve_event \<Rightarrow> datapath \<Rightarrow> datapath option" where
  "servePort e s =
     (case (dp_serve s, e) of
        (Receiving, Recv client payload) \<Rightarrow>
          if dp_connOpen s then Some (s\<lparr>dp_serve := Received client (take udpBufferSize payload)\<rparr>) else None
      | (Receiving, RecvError) \<Rightarrow>
          Some (if dp_ctxDone s \<or> \<not> dp_connOpen s then s\<lparr>dp_serve := ServeReturned\<rparr> else s)
      | (Received client payload, LookupSession) \<Rightarrow>
          Some (s\<lparr>dp_serve := (case Get (dp_sessions s) client of
             Some r \<Rightarrow> HaveSession client payload r | None \<Rightarrow> Missed client payload)\<rparr>)
      | (Missed client payload, ResolveOrDialFailed) \<Rightarrow> Some (s\<lparr>dp_serve := Receiving\<rparr>)
      | (Missed client payload, DialOk now) \<Rightarrow>
          (let r = dp_next s in
           Some (s\<lparr>dp_store := (dp_store s)(r \<mapsto> NewSession client now), dp_next := Suc r,
                   dp_sessions := Set client r (dp_sessions s), dp_active := dp_active s + 1,
                   dp_pipes := (dp_pipes s)(r \<mapsto> Reading),
                   dp_serve := HaveSession client payload r\<rparr>))
      | (HaveSession client payload r, TouchSession now) \<Rightarrow>
          Some (s\<lparr>dp_store := Touch r now (dp_store s), dp_serve := Touched client payload r\<rparr>)
      | (Touched client payload r, WriteOk) \<Rightarrow>
          (case dp_store s r of
             Some ses \<Rightarrow>
               if upstreamOpen ses
               then Some (s\<lparr>dp_serve := Receiving, dp_packetsIn := dp_packetsIn s + 1,
                            dp_bytesIn := dp_bytesIn s + length payload,
                            dp_toGateway := dp_toGateway s @ [(r, client, payload)]\<rparr>)
               else None
           | None \<Rightarrow> None)
      | (Touched client payload r, WriteError) \<Rightarrow> Some (s\<lparr>dp_serve := WriteFailed client r\<rparr>)
      | (WriteFailed client r, DeleteEntry) \<Rightarrow>
          Some (s\<lparr>dp_sessions := Delete client (dp_sessions s), dp_serve := EntryDeleted r\<rparr>)
      | (EntryDeleted r, CloseSession) \<Rightarrow>
          Some (s\<lparr>dp_store := closeUpstream r (dp_store s), dp_serve := Receiving\<rparr>)
      | _ \<Rightarrow> None)"

section \<open>pipeResponses\<close>

datatype pipe_event =
    PipeRead string
  | PipeReadError
  | PipeTouch int
  | PipeWriteOk
  | PipeWriteError
  | PipeDelete
  | PipeClose

text \<open>\<open>key\<close> and \<open>session.clientAddr\<close> are the same string: the address of the session's client.\<close>

fun pipeResponses :: "pipe_event \<Rightarrow> nat \<Rightarrow> datapath \<Rightarrow> datapath option" where
  "pipeResponses e r s =
     (case (dp_pipes s r, dp_store s r) of
        (Some st, Some ses) \<Rightarrow>
          (let goto = (\<lambda>st s. s\<lparr>dp_pipes := (dp_pipes s)(r \<mapsto> st)\<rparr>); client = clientAddr ses
           in case (st, e) of
                (Reading, PipeRead payload) \<Rightarrow>
                  if upstreamOpen ses then Some (goto (ReadDone (take udpBufferSize payload)) s) else None
              | (Reading, PipeReadError) \<Rightarrow> Some (goto PipeFailed s)
              | (ReadDone payload, PipeTouch now) \<Rightarrow>
                  Some (goto (ReadTouched payload) (s\<lparr>dp_store := Touch r now (dp_store s)\<rparr>))
              | (ReadTouched payload, PipeWriteOk) \<Rightarrow>
                  if dp_connOpen s
                  then Some (goto Reading (s\<lparr>dp_packetsOut := dp_packetsOut s + 1,
                         dp_bytesOut := dp_bytesOut s + length payload,
                         dp_toClient := dp_toClient s @ [(client, r, payload)]\<rparr>))
                  else None
              | (ReadTouched payload, PipeWriteError) \<Rightarrow> Some (goto PipeFailed s)
              | (PipeFailed, PipeDelete) \<Rightarrow>
                  Some (goto PipeDeleted (s\<lparr>dp_sessions := Delete client (dp_sessions s)\<rparr>))
              | (PipeDeleted, PipeClose) \<Rightarrow>
                  Some (goto PipeReturned (s\<lparr>dp_store := closeUpstream r (dp_store s),
                                             dp_active := dp_active s - 1\<rparr>))
              | _ \<Rightarrow> None)
      | _ \<Rightarrow> None)"

section \<open>cleanupIdleSessions and the end of a mapping\<close>

datatype outer_event = Tick int | CleanupDone | CancelContext | CloseConn | CloseSessions

fun outer :: "outer_event \<Rightarrow> datapath \<Rightarrow> datapath option" where
  "outer (Tick now) s =
     (if dp_cleanup s
      then (case CleanupIdle now (dp_idleTimeout s) (dp_sessions s, dp_store s) of
              (m, h) \<Rightarrow> Some (s\<lparr>dp_sessions := m, dp_store := h\<rparr>))
      else None)"
| "outer CleanupDone s =
     (if dp_cleanup s \<and> dp_ctxDone s then Some (s\<lparr>dp_cleanup := False\<rparr>) else None)"
| "outer CancelContext s = Some (s\<lparr>dp_ctxDone := True\<rparr>)"
| "outer CloseConn s = (if dp_ctxDone s then Some (s\<lparr>dp_connOpen := False\<rparr>) else None)"
| "outer CloseSessions s =
     (if dp_connOpen s then None
      else case CloseAll (dp_sessions s, dp_store s) of
          (m, h) \<Rightarrow> Some (s\<lparr>dp_sessions := m, dp_store := h\<rparr>))"

datatype dp_event = Serve serve_event | Pipe nat pipe_event | Outer outer_event

fun dp_exec :: "dp_event \<Rightarrow> datapath \<Rightarrow> datapath option" where
  "dp_exec (Serve e) s = servePort e s"
| "dp_exec (Pipe r e) s = pipeResponses e r s"
| "dp_exec (Outer e) s = outer e s"

abbreviation dp_run :: "dp_event list \<Rightarrow> datapath \<Rightarrow> datapath option" where
  "dp_run \<equiv> run_events dp_exec"

inductive dp_step :: "datapath \<Rightarrow> datapath \<Rightarrow> bool" where
  dp_step: "dp_exec e s = Some t \<Longrightarrow> dp_step s t"

definition dp_init :: "datapath \<Rightarrow> bool" where
  "dp_init s \<longleftrightarrow> (\<exists>timeout. s = dp_start timeout)"

lemma dp_run_reach: "reach init dp_step s \<Longrightarrow> dp_run es s = Some t \<Longrightarrow> reach init dp_step t"
  by (rule run_events_reach) (rule dp_step)

section \<open>Invariants\<close>

text \<open>Who a session belongs to never changes.\<close>

definition client_of :: "datapath \<Rightarrow> nat \<Rightarrow> string option" where
  "client_of s r = map_option clientAddr (dp_store s r)"

definition store_open :: "session_store \<Rightarrow> nat \<Rightarrow> bool" where
  "store_open h r \<longleftrightarrow> (case h r of Some ses \<Rightarrow> upstreamOpen ses | None \<Rightarrow> False)"

abbreviation upstream_open :: "datapath \<Rightarrow> nat \<Rightarrow> bool" where
  "upstream_open s \<equiv> store_open (dp_store s)"

definition pipe_running :: "datapath \<Rightarrow> nat \<Rightarrow> bool" where
  "pipe_running s r \<longleftrightarrow> dp_pipes s r \<noteq> None \<and> dp_pipes s r \<noteq> Some PipeReturned"

lemma clients_store [simp]:
  "map_option clientAddr (Touch r now h q) = map_option clientAddr (h q)"
  "map_option clientAddr (closeUpstream r h q) = map_option clientAddr (h q)"
  "map_option clientAddr (close_set R h q) = map_option clientAddr (h q)"
  by (auto simp: Touch_def closeUpstream_def close_set_def option.map_comp comp_def)

lemma dom_store [simp]:
  "Touch r now h q = None \<longleftrightarrow> h q = None" "closeUpstream r h q = None \<longleftrightarrow> h q = None"
  "dom (closeUpstream r h) = dom h"
  by (auto simp: Touch_def closeUpstream_def dom_def split: if_splits)

lemma open_store [simp]:
  "store_open (Touch q now h) r \<longleftrightarrow> store_open h r"
  "store_open (closeUpstream q h) r \<longleftrightarrow> store_open h r \<and> r \<noteq> q"
  "store_open (close_set R h) r \<longleftrightarrow> store_open h r \<and> r \<notin> R"
  by (auto simp: store_open_def Touch_def closeUpstream_def close_set_def split: option.splits)

text \<open>The session that the serving goroutine holds is its current client's.\<close>

fun serve_ok :: "(nat \<Rightarrow> string option) \<Rightarrow> serve_state \<Rightarrow> bool" where
  "serve_ok C (HaveSession client payload r) = (C r = Some client \<and> length payload \<le> udpBufferSize)"
| "serve_ok C (Touched client payload r) = (C r = Some client \<and> length payload \<le> udpBufferSize)"
| "serve_ok C (Received client payload) = (length payload \<le> udpBufferSize)"
| "serve_ok C (Missed client payload) = (length payload \<le> udpBufferSize)"
| "serve_ok C (WriteFailed client r) = (C r = Some client)"
| "serve_ok C _ = True"

fun pipe_ok :: "pipe_state option \<Rightarrow> bool" where
  "pipe_ok (Some (ReadDone payload)) = (length payload \<le> udpBufferSize)"
| "pipe_ok (Some (ReadTouched payload)) = (length payload \<le> udpBufferSize)"
| "pipe_ok _ = True"

text \<open>Sessions, responses and requests stay with their client.\<close>

definition client_inv :: "datapath \<Rightarrow> bool" where
  "client_inv s \<longleftrightarrow>
     gm_ok (dp_sessions s) \<and> (\<forall>k r. Get (dp_sessions s) k = Some r \<longrightarrow> client_of s r = Some k) \<and>
     serve_ok (client_of s) (dp_serve s) \<and> (\<forall>r. pipe_ok (dp_pipes s r)) \<and>
     (\<forall>r. client_of s r \<noteq> None \<longrightarrow> r < dp_next s) \<and>
     (\<forall>(r, client, payload) \<in> set (dp_toGateway s).
        client_of s r = Some client \<and> length payload \<le> udpBufferSize) \<and>
     (\<forall>(client, r, payload) \<in> set (dp_toClient s).
        client_of s r = Some client \<and> length payload \<le> udpBufferSize)"

text \<open>Every session has its goroutine, which ends only after closing the connection.\<close>

definition pipe_inv :: "datapath \<Rightarrow> bool" where
  "pipe_inv s \<longleftrightarrow>
     dom (dp_store s) = {..<dp_next s} \<and> dom (dp_pipes s) = {..<dp_next s} \<and>
     (\<forall>r. upstream_open s r \<longrightarrow> pipe_running s r) \<and>
     dp_active s = int (card {r. pipe_running s r})"

text \<open>The counters are those of the written datagrams.\<close>

definition counter_inv :: "datapath \<Rightarrow> bool" where
  "counter_inv s \<longleftrightarrow>
     dp_packetsIn s = length (dp_toGateway s) \<and> dp_packetsOut s = length (dp_toClient s) \<and>
     dp_bytesIn s = (\<Sum>(r, client, payload) \<leftarrow> dp_toGateway s. length payload) \<and>
     dp_bytesOut s = (\<Sum>(client, r, payload) \<leftarrow> dp_toClient s. length payload)"

definition dp_inv :: "datapath \<Rightarrow> bool" where
  "dp_inv s \<longleftrightarrow> client_inv s \<and> pipe_inv s \<and> counter_inv s"

lemma counter_inv_step: "counter_inv s \<Longrightarrow> dp_exec e s = Some t \<Longrightarrow> counter_inv t"
proof (induction e s rule: dp_exec.induct)
  case (1 e s)
  then show ?case
    by (auto simp: counter_inv_def Let_def split: serve_state.splits serve_event.splits option.splits if_splits)
next
  case (2 r e s)
  then show ?case
    by (auto simp: counter_inv_def Let_def split: pipe_state.splits pipe_event.splits option.splits if_splits)
next
  case (3 e s)
  then show ?case by (cases e) (auto simp: counter_inv_def split: prod.splits if_splits)
qed

lemma client_inv_frame:
  assumes "client_inv s" "client_of t = client_of s" "dp_next t = dp_next s"
    "\<And>k r. Get (dp_sessions t) k = Some r \<Longrightarrow> Get (dp_sessions s) k = Some r"
    "gm_ok (dp_sessions t)" "serve_ok (client_of s) (dp_serve t)" "\<And>r. pipe_ok (dp_pipes t r)"
    "\<And>r client payload. (r, client, payload) \<in> set (dp_toGateway t) \<Longrightarrow>
       (r, client, payload) \<in> set (dp_toGateway s) \<or> client_of s r = Some client \<and> length payload \<le> udpBufferSize"
    "\<And>r client payload. (client, r, payload) \<in> set (dp_toClient t) \<Longrightarrow>
       (client, r, payload) \<in> set (dp_toClient s) \<or> client_of s r = Some client \<and> length payload \<le> udpBufferSize"
  shows "client_inv t"
  using assms unfolding client_inv_def by (simp only: assms(2,3)) blast

lemma client_inv_dial:
  assumes i: "client_inv s" and "dp_serve s = Missed client payload" "servePort (DialOk now) s = Some t"
  shows "client_inv t"
proof -
  have t: "t = s\<lparr>dp_store := (dp_store s)(dp_next s \<mapsto> NewSession client now), dp_next := Suc (dp_next s),
        dp_sessions := Set client (dp_next s) (dp_sessions s), dp_active := dp_active s + 1,
        dp_pipes := (dp_pipes s)(dp_next s \<mapsto> Reading),
        dp_serve := HaveSession client payload (dp_next s)\<rparr>"
    using assms by (simp add: Let_def)
  have c: "client_of t = (client_of s)(dp_next s \<mapsto> client)"
    by (auto simp: t client_of_def NewSession_def)
  have fresh: "client_of s r = Some k \<Longrightarrow> r \<noteq> dp_next s" for r k
    using i unfolding client_inv_def by force
  have old: "client_of s r = Some k \<Longrightarrow> client_of t r = Some k" for r k
    using fresh [of r k] by (simp add: c)
  have "length payload \<le> udpBufferSize" using i assms(2) by (simp add: client_inv_def)
  moreover have "gm_ok (dp_sessions t)"
    using i by (simp add: t client_inv_def sessions.ok_put)
  moreover have "client_of t r = Some k" if "Get (dp_sessions t) k = Some r" for k r
    using that i old [of r k] by (auto simp: t [THEN arg_cong, of dp_sessions] sessions.lookup_put c
        client_inv_def split: if_splits)
  moreover have "client_of t r \<noteq> None \<Longrightarrow> r < dp_next t" for r
    using i unfolding client_inv_def c by (auto simp: t less_Suc_eq)
  moreover have "pipe_ok (dp_pipes t r)" for r using i by (simp add: t client_inv_def)
  moreover have "dp_toGateway t = dp_toGateway s" "dp_toClient t = dp_toClient s" "serve_ok (client_of t) (dp_serve t)"
    using \<open>length payload \<le> _\<close> by (simp_all add: t c [unfolded t])
  ultimately show ?thesis using i old unfolding client_inv_def by fastforce
qed

lemma client_inv_serve:
  assumes i: "client_inv s" and e: "servePort e s = Some t"
  shows "client_inv t"
proof (cases "\<exists>now. e = DialOk now")
  case True
  with e obtain client payload where "dp_serve s = Missed client payload"
    by (auto split: serve_state.splits)
  with True client_inv_dial [OF i] e show ?thesis by blast
next
  case False
  note j = i [unfolded client_inv_def]
  show ?thesis
    using False e j
    by (intro client_inv_frame [OF i])
       (auto simp: client_of_def fun_eq_iff sessions.lookup_del sessions.ok_del
         split: serve_state.splits serve_event.splits option.splits if_splits)
qed

lemma client_inv_pipe:
  assumes i: "client_inv s" and e: "pipeResponses e r s = Some t"
  shows "client_inv t"
proof -
  note j = i [unfolded client_inv_def]
  have k: "dp_pipes s r = Some (ReadDone p) \<Longrightarrow> length p \<le> udpBufferSize"
    "dp_pipes s r = Some (ReadTouched p) \<Longrightarrow> length p \<le> udpBufferSize" for p
    using j by (metis pipe_ok.simps(1), metis pipe_ok.simps(2))
  show ?thesis
    using e j
    by (intro client_inv_frame [OF i])
       (auto simp: client_of_def fun_eq_iff sessions.lookup_del sessions.ok_del Let_def dest: k
         split: pipe_state.splits pipe_event.splits option.splits if_splits)
qed

text \<open>The two bulk operations remove entries and close some sessions.\<close>

lemma outer_effect:
  assumes "gm_ok (dp_sessions s)" "outer e s = Some t"
  obtains R where "dp_store t = close_set R (dp_store s)" "gm_ok (dp_sessions t)"
    "\<And>k r. Get (dp_sessions t) k = Some r \<Longrightarrow> Get (dp_sessions s) k = Some r"
    "dp_next t = dp_next s" "dp_serve t = dp_serve s" "dp_pipes t = dp_pipes s"
    "dp_active t = dp_active s" "dp_toGateway t = dp_toGateway s" "dp_toClient t = dp_toClient s"
    "\<And>r k. r \<in> R \<Longrightarrow> \<exists>k. Get (dp_sessions s) k = Some r"
proof (cases e)
  case (Tick now)
  let ?c = "CleanupIdle now (dp_idleTimeout s) (dp_sessions s, dp_store s)"
  have t: "t = s\<lparr>dp_sessions := fst ?c, dp_store := snd ?c\<rparr>"
    using assms(2) Tick by (auto split: if_splits prod.splits)
  show ?thesis
    by (rule that [of "{r. (\<exists>k. Get (dp_sessions s) k = Some r) \<and>
          \<not> LastActivity (dp_store s) r > now - dp_idleTimeout s}"])
       (use sessions.expire_sub [OF assms(1)] in
        \<open>auto simp: t sessions.close_expire [OF assms(1)] sessions.ok_expire [OF assms(1)]\<close>)
next
  case CloseSessions
  let ?c = "CloseAll (dp_sessions s, dp_store s)"
  have t: "t = s\<lparr>dp_sessions := fst ?c, dp_store := snd ?c\<rparr>"
    using assms(2) CloseSessions by (auto split: if_splits prod.splits)
  show ?thesis
    by (rule that [of "{r. \<exists>k. Get (dp_sessions s) k = Some r}"])
       (simp_all add: t sessions.close_drop [OF assms(1)] sessions.ok_drop [OF assms(1)]
         sessions.lookup_drop [OF assms(1)])
qed (use assms that [of "{}"] in \<open>auto split: if_splits\<close>)

lemma client_inv_outer:
  assumes i: "client_inv s" and e: "outer e s = Some t"
  shows "client_inv t"
proof -
  have ok: "gm_ok (dp_sessions s)" using i by (simp add: client_inv_def)
  obtain R where "dp_store t = close_set R (dp_store s)" "gm_ok (dp_sessions t)"
    "\<And>k r. Get (dp_sessions t) k = Some r \<Longrightarrow> Get (dp_sessions s) k = Some r"
    "dp_next t = dp_next s" "dp_serve t = dp_serve s" "dp_pipes t = dp_pipes s"
    "dp_toGateway t = dp_toGateway s" "dp_toClient t = dp_toClient s"
    using outer_effect [OF ok e] by metis
  then show ?thesis
    using i by (intro client_inv_frame [OF i]) (simp_all add: client_of_def fun_eq_iff client_inv_def)
qed

lemma pipe_inv_frame:
  assumes "pipe_inv s" "\<And>r. dp_store t r = None \<longleftrightarrow> dp_store s r = None" "dp_next t = dp_next s"
    "\<And>r. dp_pipes t r = None \<longleftrightarrow> dp_pipes s r = None" "pipe_running t = pipe_running s"
    "dp_active t = dp_active s" "\<And>r. upstream_open t r \<Longrightarrow> upstream_open s r"
  shows "pipe_inv t"
  using assms unfolding pipe_inv_def dom_def by simp

lemma pipe_running_finite: "pipe_inv s \<Longrightarrow> finite {r. pipe_running s r}"
  by (rule finite_subset [of _ "{..<dp_next s}"]) (auto simp: pipe_inv_def pipe_running_def dom_def)

lemma pipe_inv_dial:
  assumes i: "pipe_inv s" and "dp_serve s = Missed client payload" "servePort (DialOk now) s = Some t"
  shows "pipe_inv t"
proof -
  let ?n = "dp_next s"
  have t: "dp_store t = (dp_store s)(?n \<mapsto> NewSession client now)" "dp_next t = Suc ?n"
    "dp_pipes t = (dp_pipes s)(?n \<mapsto> Reading)" "dp_active t = dp_active s + 1"
    using assms(2,3) by (auto simp: Let_def)
  have new: "\<not> pipe_running s ?n" using i by (auto simp: pipe_inv_def pipe_running_def dom_def)
  have run: "{r. pipe_running t r} = insert ?n {r. pipe_running s r}"
    by (auto simp: pipe_running_def t)
  have "upstream_open t r \<Longrightarrow> r = ?n \<or> upstream_open s r" for r
    by (auto simp: store_open_def t split: if_splits)
  then have "upstream_open t r \<Longrightarrow> pipe_running t r" for r
    using i run unfolding pipe_inv_def by blast
  moreover have "dp_active t = int (card {r. pipe_running t r})"
    using i new pipe_running_finite [OF i] unfolding run by (simp add: t(4) pipe_inv_def)
  ultimately show ?thesis using i by (auto simp: pipe_inv_def t lessThan_Suc)
qed

lemma pipe_inv_close:
  assumes i: "pipe_inv s" and "dp_pipes s r = Some PipeDeleted" "pipeResponses PipeClose r s = Some t"
  shows "pipe_inv t"
proof -
  have t: "dp_store t = closeUpstream r (dp_store s)" "dp_next t = dp_next s"
    "dp_pipes t = (dp_pipes s)(r \<mapsto> PipeReturned)" "dp_active t = dp_active s - 1"
    using assms(2,3) by (auto simp: Let_def split: option.splits)
  have old: "pipe_running s r" using assms(2) by (simp add: pipe_running_def)
  have run: "{q. pipe_running t q} = {q. pipe_running s q} - {r}"
    by (auto simp: pipe_running_def t)
  have card: "card {q. pipe_running s q} = Suc (card {q. pipe_running t q})"
    unfolding run using card.remove [OF pipe_running_finite [OF i], of r] old by simp
  have "upstream_open t q \<Longrightarrow> pipe_running t q" for q
    using i run unfolding pipe_inv_def t(1) open_store by blast
  then show ?thesis using i card assms(2) by (auto simp: pipe_inv_def t)
qed

lemma pipe_inv_step:
  assumes i: "pipe_inv s" "client_inv s" and e: "dp_exec e s = Some t"
  shows "pipe_inv t"
proof (cases e)
  case (Serve v)
  show ?thesis
  proof (cases "\<exists>now. v = DialOk now")
    case True
    with e Serve obtain client payload where "dp_serve s = Missed client payload"
      by (auto split: serve_state.splits)
    with True pipe_inv_dial [OF i(1)] e Serve show ?thesis by auto
  next
    case False
    with e Serve show ?thesis
      by (intro pipe_inv_frame [OF i(1)])
         (auto simp: pipe_running_def fun_eq_iff
           split: serve_state.splits serve_event.splits option.splits if_splits)
  qed
next
  case (Pipe r v)
  show ?thesis
  proof (cases "v = PipeClose")
    case True
    with e Pipe have "dp_pipes s r = Some PipeDeleted"
      by (auto simp: Let_def split: pipe_state.splits option.splits)
    with True pipe_inv_close [OF i(1)] e Pipe show ?thesis by auto
  next
    case False
    with e Pipe show ?thesis
      by (intro pipe_inv_frame [OF i(1)])
         (auto simp: pipe_running_def fun_eq_iff Let_def
           split: pipe_state.splits pipe_event.splits option.splits if_splits)
  qed
next
  case (Outer v)
  have ok: "gm_ok (dp_sessions s)" using i(2) by (simp add: client_inv_def)
  from e Outer have "outer v s = Some t" by simp
  from outer_effect [OF ok this] obtain R where R: "dp_store t = close_set R (dp_store s)"
    "dp_next t = dp_next s" "dp_pipes t = dp_pipes s" "dp_active t = dp_active s"
    by metis
  show ?thesis
    by (rule pipe_inv_frame [OF i(1)])
       (simp_all add: R pipe_running_def fun_eq_iff)
qed

lemma client_inv_step: "client_inv s \<Longrightarrow> dp_exec e s = Some t \<Longrightarrow> client_inv t"
  using client_inv_serve [of s _ t] client_inv_pipe [of s _ _ t] client_inv_outer [of s _ t]
  by (cases e) (simp_all only: dp_exec.simps)

lemma dp_start_inv: "dp_inv (dp_start timeout)"
  by (simp add: dp_inv_def client_inv_def pipe_inv_def counter_inv_def dp_start_def client_of_def
      sessions.lookup_empty sessions.ok_empty pipe_running_def store_open_def)

interpretation dp_machine: state_machine dp_init dp_step dp_inv
proof
  fix s assume "dp_init s"
  then show "dp_inv s" by (auto simp: dp_init_def dp_start_inv)
next
  fix s t assume i: "dp_inv s" and "dp_step s t"
  then obtain e where e: "dp_exec e s = Some t" by (auto elim: dp_step.cases)
  have "client_inv s" "pipe_inv s" "counter_inv s" using i by (simp_all add: dp_inv_def)
  then show "dp_inv t"
    using client_inv_step [OF _ e] pipe_inv_step [OF _ _ e] counter_inv_step [OF _ e]
    unfolding dp_inv_def by blast
qed

section \<open>Properties\<close>

definition ex_exchange :: "dp_event list" where
  "ex_exchange = [Serve (Recv ''c1'' ''ping''), Serve LookupSession, Serve (DialOk 0),
     Serve (TouchSession 0), Serve WriteOk, Pipe 0 (PipeRead ''pong''), Pipe 0 (PipeTouch 1),
     Pipe 0 PipeWriteOk]"

lemma dp_start_reach: "reach dp_init dp_step (dp_start timeout)"
  by (rule reach_init) (auto simp: dp_init_def)

lemma udpBufferSize_take [simp]: "length xs \<le> 100 \<Longrightarrow> take udpBufferSize xs = xs"
  by (simp add: udpBufferSize_def)

lemmas dp_eval = dp_start_def NewSessionMap_def Get_def Set_def Delete_def NewSession_def Let_def
  Touch_def closeUpstream_def CleanupIdle_def CloseAll_def LastActivity_def

definition ex_exchanged :: datapath where
  "ex_exchanged = (dp_start 10)\<lparr>dp_sessions := [(''c1'', 0)],
     dp_store := [0 \<mapsto> \<lparr>clientAddr = ''c1'', upstreamOpen = True, lastActivity = 1\<rparr>], dp_next := 1,
     dp_pipes := [0 \<mapsto> Reading], dp_active := 1, dp_packetsIn := 1, dp_bytesIn := 4,
     dp_packetsOut := 1, dp_bytesOut := 4, dp_toGateway := [(0, ''c1'', ''ping'')],
     dp_toClient := [(''c1'', 0, ''pong'')]\<rparr>"

lemma ex_exchange_run: "dp_run ex_exchange (dp_start 10) = Some ex_exchanged"
  by (simp add: ex_exchange_def ex_exchanged_def dp_eval)

text \<open>
  C7: Clients of a port are isolated from each other. In every interleaving of the port's
  goroutines, what is read from a session's connection to the gateway is only ever sent to the
  client whose datagrams were written to that connection; the session that the map has for an
  address has only ever served that address; and no forwarded datagram exceeds the buffer.
\<close>

theorem client_isolation:
  assumes "reach dp_init dp_step s"
  shows "(\<forall>client r payload client' payload'. (client, r, payload) \<in> set (dp_toClient s) \<longrightarrow>
        (r, client', payload') \<in> set (dp_toGateway s) \<longrightarrow> client = client') \<and>
    (\<forall>k r client payload. Get (dp_sessions s) k = Some r \<longrightarrow>
        (client, r, payload) \<in> set (dp_toClient s) \<or> (r, client, payload) \<in> set (dp_toGateway s) \<longrightarrow>
        client = k) \<and>
    (\<forall>client r payload. (client, r, payload) \<in> set (dp_toClient s) \<or>
        (r, client, payload) \<in> set (dp_toGateway s) \<longrightarrow> length payload \<le> udpBufferSize)"
proof -
  have i: "client_inv s" using dp_machine.reach_inv [OF assms] by (simp add: dp_inv_def)
  then have L: "client_of s r = Some client \<and> length payload \<le> udpBufferSize"
    if "(client, r, payload) \<in> set (dp_toClient s) \<or> (r, client, payload) \<in> set (dp_toGateway s)"
    for client r payload
    using that by (auto simp: client_inv_def)
  have K: "client_of s r = Some k" if "Get (dp_sessions s) k = Some r" for k r
    using that i by (simp add: client_inv_def)
  show ?thesis
  proof (intro conjI allI impI, goal_cases)
    case (1 client r payload client' payload')
    then show ?case using L [of client r payload] L [of client' r payload'] by simp
  next
    case (2 k r client payload)
    then show ?case using L [of client r payload] K [of k r] by simp
  next
    case (3 client r payload)
    then show ?case using L [of client r payload] by simp
  qed
qed

theorem client_isolation_witness:
  "dp_run ex_exchange (dp_start 10) = Some ex_exchanged \<and>
   reach dp_init dp_step ex_exchanged \<and> Get (dp_sessions ex_exchanged) ''c1'' = Some 0 \<and>
   (0, ''c1'', ''ping'') \<in> set (dp_toGateway ex_exchanged) \<and>
   (''c1'', 0, ''pong'') \<in> set (dp_toClient ex_exchanged) \<and> length ''pong'' \<le> udpBufferSize"
proof -
  have r: "reach dp_init dp_step ex_exchanged"
    by (rule dp_run_reach [OF dp_start_reach ex_exchange_run])
  have "(''c1'', 0, ''pong'') \<in> set (dp_toClient ex_exchanged)" by (simp add: ex_exchanged_def)
  with client_isolation [OF r] have "length ''pong'' \<le> udpBufferSize" by blast
  with r ex_exchange_run show ?thesis by (simp add: ex_exchanged_def Get_def)
qed

text \<open>
  C20: The accounting of sessions is exact. In every reachable state a session whose connection
  to the gateway is open has a running goroutine that will close it, the gauge
  \<open>ActiveSessions\<close> is the number of running goroutines and never negative, and the packet and
  byte counters are those of the datagrams written.
\<close>

theorem session_accounting:
  assumes "reach dp_init dp_step s"
  shows "(\<forall>r. upstream_open s r \<longrightarrow> pipe_running s r) \<and>
    finite {r. pipe_running s r} \<and> dp_active s = int (card {r. pipe_running s r}) \<and>
    dp_packetsIn s = length (dp_toGateway s) \<and> dp_packetsOut s = length (dp_toClient s) \<and>
    dp_bytesIn s = (\<Sum>(r, client, payload) \<leftarrow> dp_toGateway s. length payload) \<and>
    dp_bytesOut s = (\<Sum>(client, r, payload) \<leftarrow> dp_toClient s. length payload)"
proof -
  have i: "pipe_inv s" "counter_inv s" using dp_machine.reach_inv [OF assms] by (simp_all add: dp_inv_def)
  show ?thesis
    using i pipe_running_finite [OF i(1)] unfolding pipe_inv_def counter_inv_def by blast
qed

theorem session_accounting_witness:
  "reach dp_init dp_step ex_exchanged \<and> pipe_running ex_exchanged 0 \<and>
   dp_active ex_exchanged = int (card {r. pipe_running ex_exchanged r})"
proof -
  have r: "reach dp_init dp_step ex_exchanged"
    by (rule dp_run_reach [OF dp_start_reach ex_exchange_run])
  note c = session_accounting [OF r]
  have "upstream_open ex_exchanged 0" by (simp add: ex_exchanged_def store_open_def)
  with c r show ?thesis by blast
qed

section \<open>A closed session ends\<close>

text \<open>How many steps a goroutine whose connection is closed has left.\<close>

fun pipe_rank :: "pipe_state option \<Rightarrow> nat" where
  "pipe_rank (Some (ReadDone payload)) = 5"
| "pipe_rank (Some (ReadTouched payload)) = 4"
| "pipe_rank (Some Reading) = 3"
| "pipe_rank (Some PipeFailed) = 2"
| "pipe_rank (Some PipeDeleted) = 1"
| "pipe_rank _ = 0"

lemma pipe_rank_0: "pipe_rank (dp_pipes s r) = 0 \<longleftrightarrow> \<not> pipe_running s r"
  by (cases "dp_pipes s r" rule: pipe_rank.cases) (auto simp: pipe_running_def)

lemma pipe_enabled:
  assumes "dp_store s r \<noteq> None" "pipe_running s r"
  shows "\<exists>e t. dp_exec (Pipe r e) s = Some t"
proof -
  let ?e = "case dp_pipes s r of
      Some Reading \<Rightarrow> PipeReadError | Some (ReadDone p) \<Rightarrow> PipeTouch 0
    | Some (ReadTouched p) \<Rightarrow> PipeWriteError | Some PipeFailed \<Rightarrow> PipeDelete | _ \<Rightarrow> PipeClose"
  have "\<exists>t. dp_exec (Pipe r ?e) s = Some t"
    using assms by (auto simp: pipe_running_def Let_def split: option.splits pipe_state.splits)
  then show ?thesis by blast
qed

lemma pipe_progress:
  assumes "dp_exec (Pipe r e) s = Some t" "\<not> upstream_open s r"
  shows "pipe_rank (dp_pipes t r) < pipe_rank (dp_pipes s r) \<and> \<not> upstream_open t r"
  using assms
  by (auto simp: Let_def store_open_def [of "dp_store s"]
      split: option.splits pipe_state.splits pipe_event.splits if_splits)

lemma pipe_others:
  assumes i: "dp_inv s" and r: "dp_store s r \<noteq> None" and e: "dp_exec e s = Some t" "\<forall>v. e \<noteq> Pipe r v"
    and c: "\<not> upstream_open s r"
  shows "dp_pipes t r = dp_pipes s r \<and> \<not> upstream_open t r"
proof (cases e)
  case (Serve v)
  have "r \<noteq> dp_next s" using i r by (auto simp: dp_inv_def pipe_inv_def dom_def)
  then have "store_open ((dp_store s)(dp_next s \<mapsto> x)) r \<longleftrightarrow> upstream_open s r" for x
    by (simp add: store_open_def)
  with e Serve c \<open>r \<noteq> dp_next s\<close> show ?thesis
    by (auto simp: Let_def split: serve_state.splits serve_event.splits option.splits if_splits)
next
  case (Pipe q v)
  with e c show ?thesis
    by (auto simp: Let_def split: option.splits pipe_state.splits pipe_event.splits if_splits)
next
  case (Outer v)
  have ok: "gm_ok (dp_sessions s)" using i by (simp add: dp_inv_def client_inv_def)
  have "outer v s = Some t" using e Outer by simp
  from outer_effect [OF ok this] obtain R where "dp_store t = close_set R (dp_store s)" "dp_pipes t = dp_pipes s"
    by metis
  with c show ?thesis by simp
qed

text \<open>
  C32: A session that was closed, by the idle timeout, by the removal of its mapping or after a
  failed write, does come to an end: while its goroutine runs it has a step to take, each of
  its own steps leaves fewer to take until it returns, and no step of another goroutine opens
  the connection again or takes the goroutine back.
\<close>

theorem closed_session_ends:
  assumes "reach dp_init dp_step s" and "client_of s r \<noteq> None" and "\<not> upstream_open s r"
  shows "(pipe_rank (dp_pipes s r) = 0 \<longleftrightarrow> \<not> pipe_running s r) \<and>
    (pipe_running s r \<longrightarrow> (\<exists>e t. dp_exec (Pipe r e) s = Some t)) \<and>
    (\<forall>e t. dp_exec (Pipe r e) s = Some t \<longrightarrow> pipe_rank (dp_pipes t r) < pipe_rank (dp_pipes s r)) \<and>
    (\<forall>e t. dp_exec e s = Some t \<longrightarrow> (\<forall>v. e \<noteq> Pipe r v) \<longrightarrow> dp_pipes t r = dp_pipes s r) \<and>
    (\<forall>e t. dp_exec e s = Some t \<longrightarrow> \<not> upstream_open t r)"
proof -
  have r: "dp_store s r \<noteq> None" using assms(2) by (simp add: client_of_def)
  note i = dp_machine.reach_inv [OF assms(1)]
  have pc: "\<not> upstream_open t r" if "dp_exec e s = Some t" for e t
    using pipe_progress [of r _ s t] pipe_others [OF i r that _ assms(3)] that assms(3) by blast
  show ?thesis
    using pipe_rank_0 [of s r] pipe_enabled [OF r] pipe_progress [OF _ assms(3)] pc
      pipe_others [OF i r _ _ assms(3)] by blast
qed

definition ex_expired :: datapath where
  "ex_expired = ex_exchanged\<lparr>dp_sessions := [],
     dp_store := [0 \<mapsto> \<lparr>clientAddr = ''c1'', upstreamOpen = False, lastActivity = 1\<rparr>]\<rparr>"

lemma ex_expired_step: "dp_exec (Outer (Tick 11)) ex_exchanged = Some ex_expired"
  by (simp add: ex_exchanged_def ex_expired_def dp_eval)

lemma ex_expired_reach: "reach dp_init dp_step ex_expired"
  using dp_run_reach [OF dp_start_reach ex_exchange_run] ex_expired_step
  by (blast intro: reach_step dp_step.intros)

theorem closed_session_ends_witness:
  "reach dp_init dp_step ex_expired \<and> client_of ex_expired 0 = Some ''c1'' \<and>
   \<not> upstream_open ex_expired 0 \<and> (\<exists>e t. dp_exec (Pipe 0 e) ex_expired = Some t)"
proof -
  have "client_of ex_expired 0 = Some ''c1''" "\<not> upstream_open ex_expired 0" "pipe_running ex_expired 0"
    by (simp_all add: ex_expired_def ex_exchanged_def client_of_def store_open_def pipe_running_def)
  with closed_session_ends [OF ex_expired_reach, of 0] ex_expired_reach show ?thesis by simp
qed

section \<open>A session that the map lost\<close>

text \<open>
  \<open>pipeResponses\<close> deletes by address, whatever session the map has there. When the client
  sends again after its session was closed and before that session's goroutine deletes the
  entry, the deleted entry is the new session's.
\<close>

definition orphan :: "datapath \<Rightarrow> nat \<Rightarrow> bool" where
  "orphan s r \<longleftrightarrow> upstream_open s r \<and> pipe_running s r \<and> (\<forall>k. Get (dp_sessions s) k \<noteq> Some r)"

definition ex_race :: "dp_event list" where
  "ex_race = [Serve (Recv ''c1'' ''again''), Serve LookupSession, Serve (DialOk 12),
     Serve (TouchSession 12), Serve WriteOk, Pipe 0 PipeReadError, Pipe 0 PipeDelete, Pipe 0 PipeClose]"

text \<open>Nothing but its own connection's errors ends such a session: it is never idle nor closed.\<close>

lemma orphan_survives:
  assumes "dp_inv s" "orphan s r" "outer e s = Some t"
  shows "orphan t r"
proof -
  have ok: "gm_ok (dp_sessions s)" using assms(1) by (simp add: dp_inv_def client_inv_def)
  from outer_effect [OF ok assms(3)] obtain R where R: "dp_store t = close_set R (dp_store s)"
    "\<And>k r. Get (dp_sessions t) k = Some r \<Longrightarrow> Get (dp_sessions s) k = Some r"
    "dp_pipes t = dp_pipes s" "\<And>r. r \<in> R \<Longrightarrow> \<exists>k. Get (dp_sessions s) k = Some r"
    by metis
  then show ?thesis using assms(2) unfolding orphan_def pipe_running_def by (metis open_store(3))
qed

lemma session_leak:
  "\<exists>s. dp_run ex_race ex_expired = Some s \<and> reach dp_init dp_step s \<and> orphan s 1 \<and>
     dp_serve s = Receiving \<and> (\<forall>e t. outer e s = Some t \<longrightarrow> orphan t 1)"
proof -
  have "\<exists>s. dp_run ex_race ex_expired = Some s \<and> orphan s 1 \<and> dp_serve s = Receiving"
    by (simp add: ex_race_def ex_expired_def ex_exchanged_def dp_eval orphan_def store_open_def
        pipe_running_def)
  then obtain s where s: "dp_run ex_race ex_expired = Some s" "orphan s 1" "dp_serve s = Receiving"
    by blast
  have "reach dp_init dp_step s" by (rule dp_run_reach [OF ex_expired_reach s(1)])
  with s orphan_survives [OF dp_machine.reach_inv s(2)] show ?thesis by blast
qed

end
