(* ===== verification/Server_Start.thy ===== *)
theory Server_Start
  imports Forwarder_Main Forwarder_Server
begin

text \<open>
  How the two servers start and stop: \<open>HealthServer.Start\<close> of \<open>pkg/forwarder/health.go\<close> on the
  HTTP server of the standard library, and \<open>ForwarderServer.Start\<close> of \<open>internal/grpc/server.go\<close>
  on a gRPC server. Each is two goroutines: one serves, the other waits for the context and
  shuts the server down.
\<close>

section \<open>HealthServer.Start\<close>

text \<open>
  \<open>ListenAndServe\<close> returns when it cannot listen, or once \<open>Shutdown\<close> has been called, at once if
  that was before. \<open>Shutdown\<close> returns when the last active connection is idle or after its
  timeout of five seconds.
\<close>

datatype stopper = StopWaiting | Stopping | Stopped

datatype start_pc = AtServe | Serving | AtWait | StartReturned

record health_run =
  hr_ctxDone :: bool
  hr_shutdown :: bool
  hr_active :: nat
  hr_stopper :: stopper
  hr_main :: start_pc
  hr_log :: "string list"

datatype health_event =
    HCtxDone | HListen "string option" | HConnOpen | HConnIdle
  | HShutdown | HShutdownDone | HShutdownExpired | HServeClosed | HJoin

definition health_start :: health_run where
  "health_start = \<lparr>hr_ctxDone = False, hr_shutdown = False, hr_active = 0, hr_stopper = StopWaiting,
     hr_main = AtServe, hr_log = [''starting health server'']\<rparr>"

definition HealthServer_Start :: "health_event \<Rightarrow> health_run \<Rightarrow> health_run option" where
  "HealthServer_Start e s =
     (case e of
        HCtxDone \<Rightarrow> Some (s\<lparr>hr_ctxDone := True\<rparr>)
      | HListen err \<Rightarrow>
          if hr_main s \<noteq> AtServe then None
          else if hr_shutdown s then Some (s\<lparr>hr_main := AtWait\<rparr>)
          else (case err of
              None \<Rightarrow> Some (s\<lparr>hr_main := Serving\<rparr>)
            | Some x \<Rightarrow> Some (s\<lparr>hr_main := AtWait, hr_log := hr_log s @ [''health server failed'']\<rparr>))
      | HConnOpen \<Rightarrow> if hr_main s = Serving \<and> \<not> hr_shutdown s then Some (s\<lparr>hr_active := hr_active s + 1\<rparr>) else None
      | HConnIdle \<Rightarrow> if 0 < hr_active s then Some (s\<lparr>hr_active := hr_active s - 1\<rparr>) else None
      | HShutdown \<Rightarrow>
          if hr_stopper s = StopWaiting \<and> hr_ctxDone s
          then Some (s\<lparr>hr_stopper := Stopping, hr_shutdown := True\<rparr>) else None
      | HShutdownDone \<Rightarrow>
          if hr_stopper s = Stopping \<and> hr_active s = 0 then Some (s\<lparr>hr_stopper := Stopped\<rparr>) else None
      | HShutdownExpired \<Rightarrow>
          if hr_stopper s = Stopping
          then Some (s\<lparr>hr_stopper := Stopped, hr_log := hr_log s @ [''health server shutdown failed'']\<rparr>) else None
      | HServeClosed \<Rightarrow> if hr_main s = Serving \<and> hr_shutdown s then Some (s\<lparr>hr_main := AtWait\<rparr>) else None
      | HJoin \<Rightarrow> if hr_main s = AtWait \<and> hr_stopper s = Stopped then Some (s\<lparr>hr_main := StartReturned\<rparr>) else None)"

inductive health_step :: "health_run \<Rightarrow> health_run \<Rightarrow> bool" where
  health_step: "HealthServer_Start e s = Some t \<Longrightarrow> health_step s t"

definition health_inv :: "health_run \<Rightarrow> bool" where
  "health_inv s \<longleftrightarrow>
     (hr_shutdown s \<longleftrightarrow> hr_stopper s \<noteq> StopWaiting) \<and> (hr_shutdown s \<longrightarrow> hr_ctxDone s) \<and>
     (hr_main s = StartReturned \<longrightarrow> hr_stopper s = Stopped)"

interpretation health_machine: state_machine "\<lambda>s. s = health_start" health_step health_inv
proof (unfold_locales, goal_cases)
  case (1 s)
  then show ?case by (simp add: health_inv_def health_start_def)
next
  case (2 s t)
  from 2(2,1) show ?case
    by cases (auto simp: health_inv_def HealthServer_Start_def split: health_event.splits if_splits option.splits)
qed

text \<open>How far the two goroutines are from the return.\<close>

definition health_rank :: "health_run \<Rightarrow> nat" where
  "health_rank s =
     (case hr_main s of AtServe \<Rightarrow> 3 | Serving \<Rightarrow> 2 | AtWait \<Rightarrow> 1 | StartReturned \<Rightarrow> 0) +
     (case hr_stopper s of StopWaiting \<Rightarrow> 2 | Stopping \<Rightarrow> 1 | Stopped \<Rightarrow> 0)"

text \<open>The steps that the server takes itself; the others are its clients and the context.\<close>

definition health_own :: "health_event list" where
  "health_own = [HListen None, HShutdown, HShutdownExpired, HServeClosed, HJoin]"

text \<open>
  C33: The health server runs until the forwarder stops, and then ends. \<open>Start\<close> returns only
  after the context is done and the HTTP server has been shut down, also when it could not
  listen. Once the context is done and until it returns, one of its own steps is possible,
  every one of them brings it nearer to the return and nothing else takes it away from it: it
  returns after at most five steps, with or without connections that do not become idle.
\<close>

theorem health_start_returns:
  assumes "reach (\<lambda>s. s = health_start) health_step s"
  shows "(hr_main s = StartReturned \<longrightarrow> hr_ctxDone s \<and> hr_shutdown s) \<and> health_rank s \<le> 5 \<and>
    (hr_ctxDone s \<longrightarrow> hr_main s \<noteq> StartReturned \<longrightarrow> list_ex (\<lambda>e. HealthServer_Start e s \<noteq> None) health_own) \<and>
    (\<forall>e t. HealthServer_Start e s = Some t \<longrightarrow>
       (if e \<in> {HCtxDone, HConnOpen, HConnIdle} then health_rank t = health_rank s else health_rank t < health_rank s))"
proof -
  have i: "health_inv s" by (rule health_machine.reach_inv [OF assms])
  have r: "health_rank s \<le> 5" by (simp add: health_rank_def split: start_pc.split stopper.split)
  have e: "list_ex (\<lambda>e. HealthServer_Start e s \<noteq> None) health_own" if "hr_ctxDone s" "hr_main s \<noteq> StartReturned"
    using that i by (cases "hr_main s"; cases "hr_stopper s")
      (simp_all add: health_own_def HealthServer_Start_def health_inv_def)
  have d: "if e \<in> {HCtxDone, HConnOpen, HConnIdle} then health_rank t = health_rank s else health_rank t < health_rank s"
    if "HealthServer_Start e s = Some t" for e t
    using that by (cases e) (auto simp: HealthServer_Start_def health_rank_def split: if_splits option.splits)
  show ?thesis using i r e d by (auto simp: health_inv_def)
qed

abbreviation health_exec :: "health_event list \<Rightarrow> health_run \<Rightarrow> health_run option" where
  "health_exec \<equiv> run_events HealthServer_Start"

lemma health_exec_reach: "reach init health_step s \<Longrightarrow> health_exec es s = Some t \<Longrightarrow> reach init health_step t"
  by (rule run_events_reach) (rule health_step)

theorem health_start_returns_witness:
  "\<exists>s. health_exec [HListen None, HConnOpen, HCtxDone, HShutdown, HServeClosed, HShutdownExpired, HJoin] health_start = Some s \<and>
     hr_main s = StartReturned \<and> hr_ctxDone s \<and> hr_shutdown s \<and> hr_active s = 1"
proof -
  obtain s where s: "health_exec [HListen None, HConnOpen, HCtxDone, HShutdown, HServeClosed, HShutdownExpired, HJoin]
      health_start = Some s" "hr_main s = StartReturned" "hr_active s = 1"
    by (simp add: health_start_def HealthServer_Start_def)
  have "reach (\<lambda>s. s = health_start) health_step health_start" by (rule reach_init) simp
  from health_exec_reach [OF this s(1)] health_start_returns s show ?thesis by blast
qed

section \<open>ForwarderServer.Start\<close>

text \<open>
  \<open>GracefulStop\<close> refuses new calls and blocks until all pending ones have finished, and \<open>Serve\<close>
  then returns nil. The pending calls are the streams; the other calls are short.
\<close>

datatype grpc_pc = GListening | GServing | GReturned "string option"

record grpc_run =
  gx_addr :: string
  gx_sys :: grpc_sys
  gx_ctxDone :: bool
  gx_stopper :: stopper
  gx_main :: grpc_pc

datatype grpc_event =
    GListen "string option" | GCtxDone | GNewStream string | GStreamEvent stream_event nat | GAck "AckRequest option"
  | GStop | GStopDone | GServeReturns | GServeFailed string bool

definition grpc_start :: "string \<Rightarrow> grpc_run" where
  "grpc_start addr =
     \<lparr>gx_addr = (if addr = '''' then '':9090'' else addr),
      gx_sys = \<lparr>gs_srv = NewForwarderServer, gs_procs = Map.empty\<rparr>,
      gx_ctxDone = False, gx_stopper = StopWaiting, gx_main = GListening\<rparr>"

text \<open>\<open>GServeFailed err closed\<close>: accepting failed, \<open>closed\<close> if the error is \<open>net.ErrClosed\<close>.\<close>

definition ForwarderServer_Start :: "grpc_event \<Rightarrow> grpc_run \<Rightarrow> grpc_run option" where
  "ForwarderServer_Start e s =
     (case e of
        GListen err \<Rightarrow>
          if gx_main s \<noteq> GListening then None
          else (case err of
              None \<Rightarrow> Some (s\<lparr>gx_main := GServing\<rparr>)
            | Some x \<Rightarrow> Some (s\<lparr>gx_main := GReturned (Some (''listening on '' @ gx_addr s @ '': '' @ x))\<rparr>))
      | GCtxDone \<Rightarrow> Some (s\<lparr>gx_ctxDone := True\<rparr>)
      | GNewStream fid \<Rightarrow>
          if gx_main s = GServing \<and> gx_stopper s = StopWaiting
          then Some (s\<lparr>gx_sys := StreamUpdates_start fid (gx_sys s)\<rparr>) else None
      | GStreamEvent ev r \<Rightarrow>
          if gx_main s = GServing then map_option (\<lambda>g. s\<lparr>gx_sys := g\<rparr>) (StreamUpdates_event ev r (gx_sys s)) else None
      | GAck rq \<Rightarrow>
          if gx_main s = GServing \<and> gx_stopper s = StopWaiting
          then Some (s\<lparr>gx_sys := (gx_sys s)\<lparr>gs_srv := snd (Ack rq (gs_srv (gx_sys s)))\<rparr>\<rparr>) else None
      | GStop \<Rightarrow>
          if gx_ctxDone s \<and> gx_stopper s = StopWaiting \<and> gx_main s \<noteq> GListening
          then Some (s\<lparr>gx_stopper := Stopping\<rparr>) else None
      | GStopDone \<Rightarrow>
          if gx_stopper s = Stopping \<and> streams (gs_srv (gx_sys s)) = []
          then Some (s\<lparr>gx_stopper := Stopped\<rparr>) else None
      | GServeReturns \<Rightarrow>
          if gx_main s = GServing \<and> gx_stopper s = Stopped then Some (s\<lparr>gx_main := GReturned None\<rparr>) else None
      | GServeFailed err closed \<Rightarrow>
          if gx_main s = GServing \<and> gx_stopper s = StopWaiting
          then Some (s\<lparr>gx_main := GReturned
                 (if \<not> closed \<and> \<not> gx_ctxDone s then Some (''serving grpc: '' @ err) else None)\<rparr>)
          else None)"

inductive grpc_run_step :: "grpc_run \<Rightarrow> grpc_run \<Rightarrow> bool" where
  grpc_run_step: "ForwarderServer_Start e s = Some t \<Longrightarrow> grpc_run_step s t"

definition grpc_run_inv :: "grpc_run \<Rightarrow> bool" where
  "grpc_run_inv s \<longleftrightarrow>
     grpc_inv (gx_sys s) \<and> (gx_stopper s \<noteq> StopWaiting \<longrightarrow> gx_ctxDone s) \<and>
     (gx_stopper s = Stopped \<longrightarrow> streams (gs_srv (gx_sys s)) = [])"

lemma no_stream_event: "streams (gs_srv g) = [] \<Longrightarrow> StreamUpdates_event e r g = None"
  by (simp split: option.split)

interpretation grpc_server: state_machine "\<lambda>s. \<exists>addr. s = grpc_start addr" grpc_run_step grpc_run_inv
proof (unfold_locales, goal_cases)
  case (1 s)
  have "grpc_inv \<lparr>gs_srv = NewForwarderServer, gs_procs = Map.empty\<rparr>"
    by (rule grpc_machine.inv_init) (simp add: grpc_init_def)
  with 1 show ?case by (auto simp: grpc_run_inv_def grpc_start_def)
next
  case (2 s t)
  note inv = 2(1) [unfolded grpc_run_inv_def]
  from 2(2) obtain e where e: "ForwarderServer_Start e s = Some t" by cases
  have g: "grpc_inv (gx_sys t)"
  proof (cases "gx_sys t = gx_sys s")
    case False
    then have "grpc_step (gx_sys s) (gx_sys t)"
      using e by (cases e) (auto simp: ForwarderServer_Start_def split: if_splits option.splits
          intro: grpc_step.intros simp del: StreamUpdates_event.simps)
    then show ?thesis using grpc_machine.inv_step inv by blast
  qed (use inv in simp)
  show ?case
    using e g inv no_stream_event
    by (cases e) (auto simp: ForwarderServer_Start_def grpc_run_inv_def split: if_splits option.splits
        simp del: StreamUpdates_event.simps)
qed

text \<open>A server that was stopped by its context returns without error and without streams left.\<close>

lemma grpc_stopped:
  assumes "reach (\<lambda>s. \<exists>addr. s = grpc_start addr) grpc_run_step s" "ForwarderServer_Start GServeReturns s = Some t"
  shows "gx_main t = GReturned None \<and> gx_ctxDone t \<and> streams (gs_srv (gx_sys t)) = []"
  using grpc_server.reach_inv [OF assms(1)] assms(2)
  by (auto simp: grpc_run_inv_def ForwarderServer_Start_def split: if_splits)

text \<open>
  The context of the server does not end the streams: with a stream that its client keeps open,
  the steps of the server's own goroutines never lead to the return.
\<close>

inductive grpc_own_step :: "grpc_run \<Rightarrow> grpc_run \<Rightarrow> bool" where
  own: "e \<in> {GCtxDone, GStop, GStopDone, GServeReturns} \<Longrightarrow> ForwarderServer_Start e s = Some t \<Longrightarrow> grpc_own_step s t"

lemma stop_waits_for_streams:
  assumes "grpc_own_step\<^sup>*\<^sup>* s t" "gx_main s = GServing" "gx_stopper s \<noteq> Stopped" "streams (gs_srv (gx_sys s)) \<noteq> []"
  shows "gx_main t = GServing \<and> gx_stopper t \<noteq> Stopped \<and> streams (gs_srv (gx_sys t)) \<noteq> []"
  using assms(1)
proof (induction rule: rtranclp_induct)
  case base
  then show ?case using assms(2-4) by simp
next
  case (step x z)
  from step(2,3) show ?case
    by cases (auto simp: ForwarderServer_Start_def split: if_splits)
qed

end
