(* ===== verification/Deep_Copy.thy ===== *)
theory Deep_Copy
  imports Tunnel_API
begin

text \<open>
  The copying functions of \<open>api/v1alpha1/zz_generated.deepcopy.go\<close> on an explicit memory, where
  pointers, slices and maps are addresses. The rest of the development treats a tunnel as a
  value; that a copy has the same value and shares no memory with its original is what
  justifies it. The structs of apimachinery that a tunnel holds (metadata, conditions, label
  requirements) are values of the type \<open>'x\<close> with a copying function that is an argument.
\<close>

section \<open>Memory\<close>

record selectorS =
  sl_MatchLabels :: "nat option"
  sl_MatchExpressions :: "nat option"

record targetS =
  tg_Host :: string
  tg_Port :: int
  tg_ResolvedIP :: string
  tg_PodSelector :: "nat option"

record specS =
  sc_TeamSlug :: string
  sc_Target :: targetS
  sc_ClientPublicKey :: string
  sc_ActiveDeadlineSeconds :: "nat option"

record statusS =
  su_Fields :: TunnelStatus
  su_Conditions :: "nat option"

record 'x tunnelS =
  tn_TypeMeta :: "string \<times> string"
  tn_ObjectMeta :: 'x
  tn_Spec :: specS
  tn_Status :: statusS

record 'x tunnelListS =
  tl_TypeMeta :: "string \<times> string"
  tl_ListMeta :: 'x
  tl_Items :: "nat option"

datatype 'x cell =
    Int64C int
  | LabelsC "(string, string) gomap"
  | ExternalC "'x list"
  | SelectorC selectorS
  | TargetC targetS
  | SpecC specS
  | StatusC statusS
  | TunnelC "'x tunnelS"
  | TunnelsC "'x tunnelS list"
  | TunnelListC "'x tunnelListS"

record 'x mem =
  cells :: "nat \<rightharpoonup> 'x cell"
  brk :: nat

definition alloc_cell :: "'x cell \<Rightarrow> 'x mem \<Rightarrow> nat \<times> 'x mem" where
  "alloc_cell c m = (brk m, m\<lparr>cells := (cells m)(brk m \<mapsto> c), brk := Suc (brk m)\<rparr>)"

definition mem_ok :: "'x mem \<Rightarrow> bool" where
  "mem_ok m \<longleftrightarrow> (\<forall>a. cells m a \<noteq> None \<longrightarrow> a < brk m)"

definition extends :: "'x mem \<Rightarrow> 'x mem \<Rightarrow> bool" where
  "extends m m' \<longleftrightarrow> brk m \<le> brk m' \<and> (\<forall>a < brk m. cells m' a = cells m a)"

lemma extends_refl [simp]: "extends m m"
  by (simp add: extends_def)

lemma extends_trans: "extends m m1 \<Longrightarrow> extends m1 m2 \<Longrightarrow> extends m m2"
  by (auto simp: extends_def)

section \<open>Pointers and slices\<close>

text \<open>
  A pointer that is not nil is replaced by one to a copy of what it points to. \<open>con\<close> and \<open>des\<close>
  say which cells hold values of the type. A slice is a pointer to its elements.
\<close>

definition copy_ptr ::
  "('a \<Rightarrow> 'x cell) \<Rightarrow> ('x cell \<Rightarrow> 'a option) \<Rightarrow> ('a \<Rightarrow> 'x mem \<Rightarrow> 'a \<times> 'x mem) \<Rightarrow>
   nat option \<Rightarrow> 'x mem \<Rightarrow> nat option \<times> 'x mem" where
  "copy_ptr con des copy p m =
     (case p of
        None \<Rightarrow> (None, m)
      | Some a \<Rightarrow>
          (case Option.bind (cells m a) des of
             None \<Rightarrow> (Some a, m)
           | Some x \<Rightarrow>
               (case copy x m of
                  (y, m1) \<Rightarrow> (case alloc_cell (con y) m1 of (b, m2) \<Rightarrow> (Some b, m2)))))"

fun copy_list :: "('a \<Rightarrow> 'x mem \<Rightarrow> 'a \<times> 'x mem) \<Rightarrow> 'a list \<Rightarrow> 'x mem \<Rightarrow> 'a list \<times> 'x mem" where
  "copy_list copy [] m = ([], m)"
| "copy_list copy (x # xs) m =
     (case copy x m of (y, m1) \<Rightarrow> (case copy_list copy xs m1 of (ys, m2) \<Rightarrow> (y # ys, m2)))"

definition des_int64 :: "'x cell \<Rightarrow> int option" where
  "des_int64 c = (case c of Int64C n \<Rightarrow> Some n | _ \<Rightarrow> None)"

definition des_labels :: "'x cell \<Rightarrow> (string, string) gomap option" where
  "des_labels c = (case c of LabelsC l \<Rightarrow> Some l | _ \<Rightarrow> None)"

definition des_external :: "'x cell \<Rightarrow> 'x list option" where
  "des_external c = (case c of ExternalC xs \<Rightarrow> Some xs | _ \<Rightarrow> None)"

definition des_selector :: "'x cell \<Rightarrow> selectorS option" where
  "des_selector c = (case c of SelectorC s \<Rightarrow> Some s | _ \<Rightarrow> None)"

definition des_target :: "'x cell \<Rightarrow> targetS option" where
  "des_target c = (case c of TargetC s \<Rightarrow> Some s | _ \<Rightarrow> None)"

definition des_spec :: "'x cell \<Rightarrow> specS option" where
  "des_spec c = (case c of SpecC s \<Rightarrow> Some s | _ \<Rightarrow> None)"

definition des_status :: "'x cell \<Rightarrow> statusS option" where
  "des_status c = (case c of StatusC s \<Rightarrow> Some s | _ \<Rightarrow> None)"

definition des_tunnel :: "'x cell \<Rightarrow> 'x tunnelS option" where
  "des_tunnel c = (case c of TunnelC t \<Rightarrow> Some t | _ \<Rightarrow> None)"

definition des_tunnels :: "'x cell \<Rightarrow> 'x tunnelS list option" where
  "des_tunnels c = (case c of TunnelsC ts \<Rightarrow> Some ts | _ \<Rightarrow> None)"

definition des_tunnelList :: "'x cell \<Rightarrow> 'x tunnelListS option" where
  "des_tunnelList c = (case c of TunnelListC t \<Rightarrow> Some t | _ \<Rightarrow> None)"

lemmas des_defs = des_int64_def des_labels_def des_external_def des_selector_def des_target_def
  des_spec_def des_status_def des_tunnel_def des_tunnels_def des_tunnelList_def

section \<open>The generated functions\<close>

text \<open>An \<open>int64\<close> is copied by assignment and a map entry by entry.\<close>

definition copy_int64 :: "int \<Rightarrow> 'x mem \<Rightarrow> int \<times> 'x mem" where
  "copy_int64 n m = (n, m)"

definition copy_labels :: "(string, string) gomap \<Rightarrow> 'x mem \<Rightarrow> (string, string) gomap \<times> 'x mem" where
  "copy_labels l m = (fold (\<lambda>(key, val). gm_set key val) l [], m)"

text \<open>\<open>cp\<close> copies the structs of apimachinery. \<open>*out = *in\<close> is the start of every function.\<close>

definition PodSelector_DeepCopyInto ::
  "('x \<Rightarrow> 'x mem \<Rightarrow> 'x \<times> 'x mem) \<Rightarrow> selectorS \<Rightarrow> 'x mem \<Rightarrow> selectorS \<times> 'x mem" where
  "PodSelector_DeepCopyInto cp s m =
     (case copy_ptr LabelsC des_labels copy_labels (sl_MatchLabels s) m of
        (l, m1) \<Rightarrow>
          (case copy_ptr ExternalC des_external (copy_list cp) (sl_MatchExpressions s) m1 of
             (e, m2) \<Rightarrow> (s\<lparr>sl_MatchLabels := l, sl_MatchExpressions := e\<rparr>, m2)))"

definition Target_DeepCopyInto ::
  "('x \<Rightarrow> 'x mem \<Rightarrow> 'x \<times> 'x mem) \<Rightarrow> targetS \<Rightarrow> 'x mem \<Rightarrow> targetS \<times> 'x mem" where
  "Target_DeepCopyInto cp s m =
     (case copy_ptr SelectorC des_selector (PodSelector_DeepCopyInto cp) (tg_PodSelector s) m of
        (p, m1) \<Rightarrow> (s\<lparr>tg_PodSelector := p\<rparr>, m1))"

definition Spec_DeepCopyInto ::
  "('x \<Rightarrow> 'x mem \<Rightarrow> 'x \<times> 'x mem) \<Rightarrow> specS \<Rightarrow> 'x mem \<Rightarrow> specS \<times> 'x mem" where
  "Spec_DeepCopyInto cp s m =
     (case Target_DeepCopyInto cp (sc_Target s) m of
        (t, m1) \<Rightarrow>
          (case copy_ptr Int64C des_int64 copy_int64 (sc_ActiveDeadlineSeconds s) m1 of
             (d, m2) \<Rightarrow> (s\<lparr>sc_Target := t, sc_ActiveDeadlineSeconds := d\<rparr>, m2)))"

definition Status_DeepCopyInto ::
  "('x \<Rightarrow> 'x mem \<Rightarrow> 'x \<times> 'x mem) \<Rightarrow> statusS \<Rightarrow> 'x mem \<Rightarrow> statusS \<times> 'x mem" where
  "Status_DeepCopyInto cp s m =
     (case copy_ptr ExternalC des_external (copy_list cp) (su_Conditions s) m of
        (c, m1) \<Rightarrow> (s\<lparr>su_Conditions := c\<rparr>, m1))"

definition Tunnel_DeepCopyInto ::
  "('x \<Rightarrow> 'x mem \<Rightarrow> 'x \<times> 'x mem) \<Rightarrow> 'x tunnelS \<Rightarrow> 'x mem \<Rightarrow> 'x tunnelS \<times> 'x mem" where
  "Tunnel_DeepCopyInto cp t m =
     (case cp (tn_ObjectMeta t) m of
        (o', m1) \<Rightarrow>
          (case Spec_DeepCopyInto cp (tn_Spec t) m1 of
             (sp, m2) \<Rightarrow>
               (case Status_DeepCopyInto cp (tn_Status t) m2 of
                  (st, m3) \<Rightarrow> (t\<lparr>tn_ObjectMeta := o', tn_Spec := sp, tn_Status := st\<rparr>, m3))))"

definition TunnelList_DeepCopyInto ::
  "('x \<Rightarrow> 'x mem \<Rightarrow> 'x \<times> 'x mem) \<Rightarrow> 'x tunnelListS \<Rightarrow> 'x mem \<Rightarrow> 'x tunnelListS \<times> 'x mem" where
  "TunnelList_DeepCopyInto cp l m =
     (case cp (tl_ListMeta l) m of
        (lm, m1) \<Rightarrow>
          (case copy_ptr TunnelsC des_tunnels (copy_list (Tunnel_DeepCopyInto cp)) (tl_Items l) m1 of
             (is, m2) \<Rightarrow> (l\<lparr>tl_ListMeta := lm, tl_Items := is\<rparr>, m2)))"

text \<open>The functions on pointers: nil for nil, else a new object.\<close>

definition Tunnel_DeepCopy ::
  "('x \<Rightarrow> 'x mem \<Rightarrow> 'x \<times> 'x mem) \<Rightarrow> nat option \<Rightarrow> 'x mem \<Rightarrow> nat option \<times> 'x mem" where
  "Tunnel_DeepCopy cp = copy_ptr TunnelC des_tunnel (Tunnel_DeepCopyInto cp)"

definition Tunnel_DeepCopyObject ::
  "('x \<Rightarrow> 'x mem \<Rightarrow> 'x \<times> 'x mem) \<Rightarrow> nat option \<Rightarrow> 'x mem \<Rightarrow> nat option \<times> 'x mem" where
  "Tunnel_DeepCopyObject cp p m =
     (case Tunnel_DeepCopy cp p m of (Some c, m1) \<Rightarrow> (Some c, m1) | (None, m1) \<Rightarrow> (None, m1))"

definition TunnelList_DeepCopy ::
  "('x \<Rightarrow> 'x mem \<Rightarrow> 'x \<times> 'x mem) \<Rightarrow> nat option \<Rightarrow> 'x mem \<Rightarrow> nat option \<times> 'x mem" where
  "TunnelList_DeepCopy cp = copy_ptr TunnelListC des_tunnelList (TunnelList_DeepCopyInto cp)"

definition TunnelList_DeepCopyObject ::
  "('x \<Rightarrow> 'x mem \<Rightarrow> 'x \<times> 'x mem) \<Rightarrow> nat option \<Rightarrow> 'x mem \<Rightarrow> nat option \<times> 'x mem" where
  "TunnelList_DeepCopyObject cp p m =
     (case TunnelList_DeepCopy cp p m of (Some c, m1) \<Rightarrow> (Some c, m1) | (None, m1) \<Rightarrow> (None, m1))"

definition Spec_DeepCopy ::
  "('x \<Rightarrow> 'x mem \<Rightarrow> 'x \<times> 'x mem) \<Rightarrow> nat option \<Rightarrow> 'x mem \<Rightarrow> nat option \<times> 'x mem" where
  "Spec_DeepCopy cp = copy_ptr SpecC des_spec (Spec_DeepCopyInto cp)"

definition Status_DeepCopy ::
  "('x \<Rightarrow> 'x mem \<Rightarrow> 'x \<times> 'x mem) \<Rightarrow> nat option \<Rightarrow> 'x mem \<Rightarrow> nat option \<times> 'x mem" where
  "Status_DeepCopy cp = copy_ptr StatusC des_status (Status_DeepCopyInto cp)"

definition Target_DeepCopy ::
  "('x \<Rightarrow> 'x mem \<Rightarrow> 'x \<times> 'x mem) \<Rightarrow> nat option \<Rightarrow> 'x mem \<Rightarrow> nat option \<times> 'x mem" where
  "Target_DeepCopy cp = copy_ptr TargetC des_target (Target_DeepCopyInto cp)"

definition PodSelector_DeepCopy ::
  "('x \<Rightarrow> 'x mem \<Rightarrow> 'x \<times> 'x mem) \<Rightarrow> nat option \<Rightarrow> 'x mem \<Rightarrow> nat option \<times> 'x mem" where
  "PodSelector_DeepCopy cp = copy_ptr SelectorC des_selector (PodSelector_DeepCopyInto cp)"

section \<open>The contract of a copying function\<close>

text \<open>
  \<open>ok\<close> says that a value's pointers are not dangling, \<open>val\<close> reads what it stands for and \<open>foot\<close>
  is the memory this depends on. A copy reads the same, lies in new memory only, and leaves
  the old memory as it was.
\<close>

locale copier =
  fixes copy :: "'a \<Rightarrow> 'x mem \<Rightarrow> 'a \<times> 'x mem"
    and ok :: "'a \<Rightarrow> 'x mem \<Rightarrow> bool"
    and val :: "'a \<Rightarrow> 'x mem \<Rightarrow> 'v"
    and foot :: "'a \<Rightarrow> 'x mem \<Rightarrow> nat set"
  assumes frame: "ok x m \<Longrightarrow> (\<And>a. a \<in> foot x m \<Longrightarrow> cells m' a = cells m a) \<Longrightarrow>
      ok x m' \<and> val x m' = val x m \<and> foot x m' = foot x m"
    and bounded: "mem_ok m \<Longrightarrow> ok x m \<Longrightarrow> foot x m \<subseteq> {..<brk m}"
    and copies: "mem_ok m \<Longrightarrow> ok x m \<Longrightarrow> copy x m = (y, m') \<Longrightarrow>
      mem_ok m' \<and> extends m m' \<and> ok y m' \<and> val y m' = val x m \<and> foot y m' \<subseteq> {brk m..<brk m'}"
begin

lemma kept:
  assumes "mem_ok m" "ok x m" "extends m m'"
  shows "ok x m' \<and> val x m' = val x m \<and> foot x m' = foot x m"
  using bounded [OF assms(1,2)] assms(3) by (intro frame [OF assms(2)]) (auto simp: extends_def)

text \<open>Original and copy share no memory, so that a write through one does not show in the other.\<close>

lemma separate:
  assumes "mem_ok m" "ok x m" "copy x m = (y, m')"
  shows "foot x m' \<inter> foot y m' = {}"
    and "c \<in> foot y m' \<Longrightarrow> val x (m'\<lparr>cells := (cells m')(c \<mapsto> v)\<rparr>) = val x m"
    and "c \<in> foot x m' \<Longrightarrow> val y (m'\<lparr>cells := (cells m')(c \<mapsto> v)\<rparr>) = val x m"
proof -
  note c = copies [OF assms]
  have x: "ok x m' \<and> val x m' = val x m \<and> foot x m' = foot x m" using kept [OF assms(1,2)] c by blast
  show d: "foot x m' \<inter> foot y m' = {}" using x c bounded [OF assms(1,2)] by fastforce
  show "c \<in> foot y m' \<Longrightarrow> val x (m'\<lparr>cells := (cells m')(c \<mapsto> v)\<rparr>) = val x m"
    using x d frame [of x m' "m'\<lparr>cells := (cells m')(c \<mapsto> v)\<rparr>"] by (metis disjoint_iff fun_upd_other mem.select_convs(1) mem.surjective mem.update_convs(1))
  show "c \<in> foot x m' \<Longrightarrow> val y (m'\<lparr>cells := (cells m')(c \<mapsto> v)\<rparr>) = val x m"
    using c d frame [of y m' "m'\<lparr>cells := (cells m')(c \<mapsto> v)\<rparr>"] by (metis disjoint_iff fun_upd_other mem.select_convs(1) mem.surjective mem.update_convs(1))
qed

end

section \<open>Copying functions from copying functions\<close>

definition ok_ptr :: "('x cell \<Rightarrow> 'a option) \<Rightarrow> ('a \<Rightarrow> 'x mem \<Rightarrow> bool) \<Rightarrow> nat option \<Rightarrow> 'x mem \<Rightarrow> bool" where
  "ok_ptr des ok p m =
     (case p of None \<Rightarrow> True
      | Some a \<Rightarrow> (case Option.bind (cells m a) des of None \<Rightarrow> False | Some x \<Rightarrow> ok x m))"

definition val_ptr :: "('x cell \<Rightarrow> 'a option) \<Rightarrow> ('a \<Rightarrow> 'x mem \<Rightarrow> 'v) \<Rightarrow> nat option \<Rightarrow> 'x mem \<Rightarrow> 'v option" where
  "val_ptr des val p m = map_option (\<lambda>x. val x m) (Option.bind p (\<lambda>a. Option.bind (cells m a) des))"

definition foot_ptr :: "('x cell \<Rightarrow> 'a option) \<Rightarrow> ('a \<Rightarrow> 'x mem \<Rightarrow> nat set) \<Rightarrow> nat option \<Rightarrow> 'x mem \<Rightarrow> nat set" where
  "foot_ptr des foot p m =
     (case p of None \<Rightarrow> {}
      | Some a \<Rightarrow> insert a (case Option.bind (cells m a) des of None \<Rightarrow> {} | Some x \<Rightarrow> foot x m))"

lemmas ptr_defs = ok_ptr_def val_ptr_def foot_ptr_def

lemma copier_ptr:
  assumes "copier copy ok val foot" "\<And>x. des (con x) = Some x"
  shows "copier (copy_ptr con des copy) (ok_ptr des ok) (val_ptr des val) (foot_ptr des foot)"
proof (unfold_locales, goal_cases)
  case (1 p m m')
  show ?case
  proof (cases p)
    case (Some a)
    then obtain x where x: "Option.bind (cells m a) des = Some x" "ok x m"
      using 1(1) by (auto simp: ok_ptr_def split: option.splits)
    have a: "cells m' a = cells m a" using 1(2) Some by (simp add: foot_ptr_def)
    have "ok x m' \<and> val x m' = val x m \<and> foot x m' = foot x m"
      by (rule copier.frame [OF assms(1) x(2)]) (use 1(2) Some x(1) in \<open>simp add: foot_ptr_def\<close>)
    then show ?thesis using Some x(1) a by (simp add: ptr_defs)
  qed (simp add: ptr_defs)
next
  case (2 m p)
  show ?case
  proof (cases p)
    case (Some a)
    then obtain x where x: "Option.bind (cells m a) des = Some x" "ok x m"
      using 2(2) by (auto simp: ok_ptr_def split: option.splits)
    then have "a < brk m" using 2(1) by (auto simp: mem_ok_def bind_eq_Some_conv)
    then show ?thesis using copier.bounded [OF assms(1) 2(1) x(2)] Some x(1) by (simp add: foot_ptr_def)
  qed (simp add: foot_ptr_def)
next
  case (3 m p y m')
  show ?case
  proof (cases p)
    case None
    then show ?thesis using 3 by (simp add: copy_ptr_def ptr_defs)
  next
    case (Some a)
    then obtain x where x: "Option.bind (cells m a) des = Some x" "ok x m"
      using 3(2) by (auto simp: ok_ptr_def split: option.splits)
    obtain z m1 where z: "copy x m = (z, m1)" by force
    note c = copier.copies [OF assms(1) 3(1) x(2) z]
    have y: "y = Some (brk m1)" "m' = m1\<lparr>cells := (cells m1)(brk m1 \<mapsto> con z), brk := Suc (brk m1)\<rparr>"
      using 3(3) Some x(1) z by (simp_all add: copy_ptr_def alloc_cell_def)
    have f: "ok z m' \<and> val z m' = val z m1 \<and> foot z m' = foot z m1"
      by (rule copier.frame [OF assms(1)]) (use c y(2) in auto)
    have d: "Option.bind (cells m' (brk m1)) des = Some z" using y(2) assms(2) by simp
    have "mem_ok m' \<and> extends m m'"
      using c y(2) by (auto simp: mem_ok_def extends_def less_Suc_eq)
    moreover have "foot_ptr des foot y m' \<subseteq> {brk m..<brk m'}"
      using c f d y by (auto simp: foot_ptr_def extends_def)
    ultimately show ?thesis using Some x(1) y(1) d f c by (simp add: ok_ptr_def val_ptr_def)
  qed
qed

definition foot_list :: "('a \<Rightarrow> 'x mem \<Rightarrow> nat set) \<Rightarrow> 'a list \<Rightarrow> 'x mem \<Rightarrow> nat set" where
  "foot_list foot xs m = (\<Union>x \<in> set xs. foot x m)"

definition ok_list :: "('a \<Rightarrow> 'x mem \<Rightarrow> bool) \<Rightarrow> 'a list \<Rightarrow> 'x mem \<Rightarrow> bool" where
  "ok_list ok xs m \<longleftrightarrow> (\<forall>x \<in> set xs. ok x m)"

definition val_list :: "('a \<Rightarrow> 'x mem \<Rightarrow> 'v) \<Rightarrow> 'a list \<Rightarrow> 'x mem \<Rightarrow> 'v list" where
  "val_list val xs m = map (\<lambda>x. val x m) xs"

lemmas list_defs = foot_list_def ok_list_def val_list_def

text \<open>Copying one thing and then another.\<close>

definition copy_pair ::
  "('a \<Rightarrow> 'x mem \<Rightarrow> 'a \<times> 'x mem) \<Rightarrow> ('b \<Rightarrow> 'x mem \<Rightarrow> 'b \<times> 'x mem) \<Rightarrow> 'a \<times> 'b \<Rightarrow> 'x mem \<Rightarrow> ('a \<times> 'b) \<times> 'x mem" where
  "copy_pair c1 c2 xz m =
     (case c1 (fst xz) m of (x, m1) \<Rightarrow> (case c2 (snd xz) m1 of (z, m2) \<Rightarrow> ((x, z), m2)))"

definition ok_pair :: "('a \<Rightarrow> 'x mem \<Rightarrow> bool) \<Rightarrow> ('b \<Rightarrow> 'x mem \<Rightarrow> bool) \<Rightarrow> 'a \<times> 'b \<Rightarrow> 'x mem \<Rightarrow> bool" where
  "ok_pair ok1 ok2 xz m \<longleftrightarrow> ok1 (fst xz) m \<and> ok2 (snd xz) m"

definition val_pair :: "('a \<Rightarrow> 'x mem \<Rightarrow> 'v) \<Rightarrow> ('b \<Rightarrow> 'x mem \<Rightarrow> 'w) \<Rightarrow> 'a \<times> 'b \<Rightarrow> 'x mem \<Rightarrow> 'v \<times> 'w" where
  "val_pair v1 v2 xz m = (v1 (fst xz) m, v2 (snd xz) m)"

definition foot_pair :: "('a \<Rightarrow> 'x mem \<Rightarrow> nat set) \<Rightarrow> ('b \<Rightarrow> 'x mem \<Rightarrow> nat set) \<Rightarrow> 'a \<times> 'b \<Rightarrow> 'x mem \<Rightarrow> nat set" where
  "foot_pair f1 f2 xz m = f1 (fst xz) m \<union> f2 (snd xz) m"

lemmas pair_defs = ok_pair_def val_pair_def foot_pair_def

lemma copied_first:
  assumes c: "copier copy ok val foot" and m: "mem_ok m" "ok x m" "copy x m = (y, m1)"
    and "mem_ok m2" "extends m1 m2" "F \<subseteq> {brk m1..<brk m2}"
  shows "extends m m2 \<and> ok y m2 \<and> val y m2 = val x m \<and> foot y m2 \<union> F \<subseteq> {brk m..<brk m2}"
proof -
  note a = copier.copies [OF c m]
  have y: "ok y m2 \<and> val y m2 = val y m1 \<and> foot y m2 = foot y m1"
    using copier.kept [OF c _ _ assms(6)] a by blast
  have "brk m \<le> brk m1" "brk m1 \<le> brk m2" using a assms(6) by (auto simp: extends_def)
  then have r: "{brk m..<brk m1} \<subseteq> {brk m..<brk m2}" "{brk m1..<brk m2} \<subseteq> {brk m..<brk m2}" by auto
  have e: "extends m m2" using extends_trans [OF _ assms(6)] a by simp
  have "foot y m2 \<subseteq> {brk m..<brk m2}" using a y order_trans [OF _ r(1)] by simp
  moreover have "F \<subseteq> {brk m..<brk m2}" by (rule order_trans [OF assms(7) r(2)])
  ultimately show ?thesis using a y e by simp
qed

lemma copier_pair:
  assumes "copier c1 ok1 v1 f1" "copier c2 ok2 v2 f2"
  shows "copier (copy_pair c1 c2) (ok_pair ok1 ok2) (val_pair v1 v2) (foot_pair f1 f2)"
proof (unfold_locales, goal_cases)
  case (1 p m m')
  then have "ok1 (fst p) m' \<and> v1 (fst p) m' = v1 (fst p) m \<and> f1 (fst p) m' = f1 (fst p) m"
    "ok2 (snd p) m' \<and> v2 (snd p) m' = v2 (snd p) m \<and> f2 (snd p) m' = f2 (snd p) m"
    by (auto simp: pair_defs intro!: copier.frame [OF assms(1)] copier.frame [OF assms(2)])
  then show ?case by (simp add: pair_defs)
next
  case (2 m p)
  then show ?case
    using copier.bounded [OF assms(1)] copier.bounded [OF assms(2)] by (simp add: pair_defs)
next
  case (3 m p y m')
  obtain x m1 where x: "c1 (fst p) m = (x, m1)" by force
  obtain z m2 where z: "c2 (snd p) m1 = (z, m2)" by force
  have y: "y = (x, z)" "m' = m2" using 3(3) x z by (simp_all add: copy_pair_def)
  have o: "ok1 (fst p) m" "ok2 (snd p) m" using 3(2) by (simp_all add: ok_pair_def)
  note a = copier.copies [OF assms(1) 3(1) o(1) x]
  have k: "ok2 (snd p) m1 \<and> v2 (snd p) m1 = v2 (snd p) m"
    using copier.kept [OF assms(2) 3(1) o(2)] a by blast
  then have b: "mem_ok m2 \<and> extends m1 m2 \<and> ok2 z m2 \<and> v2 z m2 = v2 (snd p) m1 \<and> f2 z m2 \<subseteq> {brk m1..<brk m2}"
    using copier.copies [OF assms(2) _ _ z] a by blast
  from copied_first [OF assms(1) 3(1) o(1) x, of m2 "f2 z m2"] b k y show ?case by (simp add: pair_defs)
qed

lemma copier_list:
  assumes "copier copy ok val foot"
  shows "copier (copy_list copy) (ok_list ok) (val_list val) (foot_list foot)"
proof (unfold_locales, goal_cases)
  case (1 xs m m')
  have "ok x m' \<and> val x m' = val x m \<and> foot x m' = foot x m" if "x \<in> set xs" for x
    by (rule copier.frame [OF assms]) (use 1 that in \<open>auto simp: list_defs\<close>)
  then show ?case by (simp add: list_defs)
next
  case (2 m xs)
  then show ?case using copier.bounded [OF assms] by (auto simp: list_defs)
next
  case (3 m xs ys m')
  then show ?case
  proof (induction xs arbitrary: m ys m')
    case (Cons x xs)
    obtain y m1 where y: "copy x m = (y, m1)" by force
    obtain zs m2 where zs: "copy_list copy xs m1 = (zs, m2)" by force
    have eq: "ys = y # zs" "m' = m2" using Cons.prems(3) y zs by simp_all
    have o: "ok x m" "ok_list ok xs m" using Cons.prems(2) by (simp_all add: ok_list_def)
    note a = copier.copies [OF assms Cons.prems(1) o(1) y]
    have "ok z m1 \<and> val z m1 = val z m" if "z \<in> set xs" for z
      using copier.kept [OF assms Cons.prems(1), of z m1] o(2) a that by (simp add: ok_list_def)
    then have k: "ok_list ok xs m1" "val_list val xs m1 = val_list val xs m" by (simp_all add: list_defs)
    have b: "mem_ok m2 \<and> extends m1 m2 \<and> ok_list ok zs m2 \<and> val_list val zs m2 = val_list val xs m1 \<and>
        foot_list foot zs m2 \<subseteq> {brk m1..<brk m2}"
      using Cons.IH [OF _ k(1) zs] a by blast
    from copied_first [OF assms Cons.prems(1) o(1) y, of m2 "foot_list foot zs m2"] b k eq
    show ?case by (simp add: list_defs)
  qed (simp add: list_defs)
qed

text \<open>A struct: \<open>*out = *in\<close>, then the parts that \<open>get\<close> picks are replaced by copies of them.\<close>

definition copy_struct ::
  "('s \<Rightarrow> 'p) \<Rightarrow> ('p \<Rightarrow> 's \<Rightarrow> 's) \<Rightarrow> ('p \<Rightarrow> 'x mem \<Rightarrow> 'p \<times> 'x mem) \<Rightarrow> 's \<Rightarrow> 'x mem \<Rightarrow> 's \<times> 'x mem" where
  "copy_struct get put copy s m = (case copy (get s) m of (p, m1) \<Rightarrow> (put p s, m1))"

lemma copier_struct:
  assumes c: "copier copy ok val foot" and "\<And>p s. get (put p s) = p" "\<And>p s. erase (put p s) = erase s"
  shows "copier (copy_struct get put copy) (\<lambda>s. ok (get s)) (\<lambda>s m. (erase s, val (get s) m)) (\<lambda>s. foot (get s))"
proof (unfold_locales, goal_cases)
  case (1 s m m')
  then show ?case using copier.frame [OF c, of "get s" m m'] by simp
next
  case (2 m s)
  then show ?case by (rule copier.bounded [OF c])
next
  case (3 m s y m')
  obtain p m1 where "copy (get s) m = (p, m1)" by force
  with copier.copies [OF c 3(1,2) this] 3(3) assms(2,3) show ?case by (auto simp: copy_struct_def)
qed

text \<open>How values of a type are read, in one record.\<close>

record ('a, 'x, 'v) view =
  ok_of :: "'a \<Rightarrow> 'x mem \<Rightarrow> bool"
  val_of :: "'a \<Rightarrow> 'x mem \<Rightarrow> 'v"
  foot_of :: "'a \<Rightarrow> 'x mem \<Rightarrow> nat set"

abbreviation copies_as :: "('a \<Rightarrow> 'x mem \<Rightarrow> 'a \<times> 'x mem) \<Rightarrow> ('a, 'x, 'v) view \<Rightarrow> bool" where
  "copies_as copy V \<equiv> copier copy (ok_of V) (val_of V) (foot_of V)"

definition ptr_view :: "('x cell \<Rightarrow> 'a option) \<Rightarrow> ('a, 'x, 'v) view \<Rightarrow> (nat option, 'x, 'v option) view" where
  "ptr_view des V = \<lparr>ok_of = ok_ptr des (ok_of V), val_of = val_ptr des (val_of V), foot_of = foot_ptr des (foot_of V)\<rparr>"

definition list_view :: "('a, 'x, 'v) view \<Rightarrow> ('a list, 'x, 'v list) view" where
  "list_view V = \<lparr>ok_of = ok_list (ok_of V), val_of = val_list (val_of V), foot_of = foot_list (foot_of V)\<rparr>"

definition pair_view :: "('a, 'x, 'v) view \<Rightarrow> ('b, 'x, 'w) view \<Rightarrow> ('a \<times> 'b, 'x, 'v \<times> 'w) view" where
  "pair_view V W = \<lparr>ok_of = ok_pair (ok_of V) (ok_of W), val_of = val_pair (val_of V) (val_of W),
     foot_of = foot_pair (foot_of V) (foot_of W)\<rparr>"

definition struct_view :: "('s \<Rightarrow> 'p) \<Rightarrow> ('s \<Rightarrow> 'e) \<Rightarrow> ('p, 'x, 'v) view \<Rightarrow> ('s, 'x, 'e \<times> 'v) view" where
  "struct_view get erase V = \<lparr>ok_of = (\<lambda>s. ok_of V (get s)), val_of = (\<lambda>s m. (erase s, val_of V (get s) m)),
     foot_of = (\<lambda>s. foot_of V (get s))\<rparr>"

lemma copies_ptr:
  "copies_as copy V \<Longrightarrow> (\<And>x. des (con x) = Some x) \<Longrightarrow> copies_as (copy_ptr con des copy) (ptr_view des V)"
  unfolding ptr_view_def view.simps by (rule copier_ptr)

lemma copies_list: "copies_as copy V \<Longrightarrow> copies_as (copy_list copy) (list_view V)"
  unfolding list_view_def view.simps by (rule copier_list)

lemma copies_pair: "copies_as c V \<Longrightarrow> copies_as d W \<Longrightarrow> copies_as (copy_pair c d) (pair_view V W)"
  unfolding pair_view_def view.simps by (rule copier_pair)

lemma copies_struct:
  "copies_as copy V \<Longrightarrow> (\<And>p s. get (put p s) = p) \<Longrightarrow> (\<And>p s. erase (put p s) = erase s) \<Longrightarrow>
   copies_as (copy_struct get put copy) (struct_view get erase V)"
  unfolding struct_view_def view.simps by (rule copier_struct)

section \<open>Reading a tunnel\<close>

definition int64_view :: "(int, 'x, int) view" where
  "int64_view = \<lparr>ok_of = (\<lambda>_ _. True), val_of = (\<lambda>n _. n), foot_of = (\<lambda>_ _. {})\<rparr>"

definition labels_view :: "((string, string) gomap, 'x, string \<rightharpoonup> string) view" where
  "labels_view = \<lparr>ok_of = (\<lambda>l _. gm_ok l), val_of = (\<lambda>l _. gm_get l), foot_of = (\<lambda>_ _. {})\<rparr>"

definition selector_view ::
  "('x, 'x, 'v) view \<Rightarrow> (selectorS, 'x, selectorS \<times> (string \<rightharpoonup> string) option \<times> 'v list option) view" where
  "selector_view X =
     struct_view (\<lambda>s. (sl_MatchLabels s, sl_MatchExpressions s)) (\<lambda>s. s\<lparr>sl_MatchLabels := None, sl_MatchExpressions := None\<rparr>)
       (pair_view (ptr_view des_labels labels_view) (ptr_view des_external (list_view X)))"

definition target_view ::
  "('x, 'x, 'v) view \<Rightarrow> (targetS, 'x, targetS \<times> (selectorS \<times> (string \<rightharpoonup> string) option \<times> 'v list option) option) view" where
  "target_view X =
     struct_view tg_PodSelector (\<lambda>s. s\<lparr>tg_PodSelector := None\<rparr>) (ptr_view des_selector (selector_view X))"

definition no_target :: targetS where
  "no_target = \<lparr>tg_Host = '''', tg_Port = 0, tg_ResolvedIP = '''', tg_PodSelector = None\<rparr>"

definition spec_view ::
  "('x, 'x, 'v) view \<Rightarrow> (specS, 'x, specS \<times>
     (targetS \<times> (selectorS \<times> (string \<rightharpoonup> string) option \<times> 'v list option) option) \<times> int option) view" where
  "spec_view X =
     struct_view (\<lambda>s. (sc_Target s, sc_ActiveDeadlineSeconds s))
       (\<lambda>s. s\<lparr>sc_Target := no_target, sc_ActiveDeadlineSeconds := None\<rparr>)
       (pair_view (target_view X) (ptr_view des_int64 int64_view))"

definition status_view :: "('x, 'x, 'v) view \<Rightarrow> (statusS, 'x, statusS \<times> 'v list option) view" where
  "status_view X =
     struct_view su_Conditions (\<lambda>s. s\<lparr>su_Conditions := None\<rparr>) (ptr_view des_external (list_view X))"

definition tunnel_view ::
  "('x, 'x, 'v) view \<Rightarrow> ('x tunnelS, 'x, (string \<times> string) \<times> 'v \<times>
     (specS \<times> (targetS \<times> (selectorS \<times> (string \<rightharpoonup> string) option \<times> 'v list option) option) \<times> int option) \<times>
     statusS \<times> 'v list option) view" where
  "tunnel_view X =
     struct_view (\<lambda>t. (tn_ObjectMeta t, tn_Spec t, tn_Status t)) tn_TypeMeta
       (pair_view X (pair_view (spec_view X) (status_view X)))"

definition tunnelList_view ::
  "('x, 'x, 'v) view \<Rightarrow> ('x tunnelListS, 'x, (string \<times> string) \<times> 'v \<times> ((string \<times> string) \<times> 'v \<times>
     (specS \<times> (targetS \<times> (selectorS \<times> (string \<rightharpoonup> string) option \<times> 'v list option) option) \<times> int option) \<times>
     statusS \<times> 'v list option) list option) view" where
  "tunnelList_view X =
     struct_view (\<lambda>l. (tl_ListMeta l, tl_Items l)) tl_TypeMeta
       (pair_view X (ptr_view des_tunnels (list_view (tunnel_view X))))"

interpretation int64: copier copy_int64 "ok_of int64_view" "val_of int64_view" "foot_of int64_view"
  by unfold_locales (auto simp: int64_view_def copy_int64_def)

lemma copy_labels_entries:
  "gm_ok l \<Longrightarrow> gm_get (fold (\<lambda>(key, val). gm_set key val) l acc) = gm_get acc ++ gm_get l"
proof (induction l arbitrary: acc)
  case (Cons e l)
  obtain k v where e: "e = (k, v)" by (cases e)
  have "k \<notin> dom (gm_get l)" using Cons.prems e by (simp add: dom_map_of_conv_image_fst)
  then show ?case using Cons e by (auto simp: map_add_def fun_eq_iff split: option.split)
qed simp

lemma copy_labels_ok: "gm_ok acc \<Longrightarrow> gm_ok (fold (\<lambda>(key, val). gm_set key val) l acc)"
  by (induction l arbitrary: acc) auto

interpretation labels: copier copy_labels "ok_of labels_view" "val_of labels_view" "foot_of labels_view"
  by unfold_locales (auto simp: labels_view_def copy_labels_def copy_labels_entries copy_labels_ok)

lemma copies_selector: "copies_as cp X \<Longrightarrow> copies_as (PodSelector_DeepCopyInto cp) (selector_view X)"
proof -
  assume X: "copies_as cp X"
  have "PodSelector_DeepCopyInto cp =
      copy_struct (\<lambda>s. (sl_MatchLabels s, sl_MatchExpressions s))
        (\<lambda>(l, e) s. s\<lparr>sl_MatchLabels := l, sl_MatchExpressions := e\<rparr>)
        (copy_pair (copy_ptr LabelsC des_labels copy_labels) (copy_ptr ExternalC des_external (copy_list cp)))"
    by (intro ext) (simp add: PodSelector_DeepCopyInto_def copy_struct_def copy_pair_def split: prod.split)
  then show ?thesis
    unfolding selector_view_def
    by (auto simp: des_defs intro!: copies_struct copies_pair copies_ptr copies_list X labels.copier_axioms)
qed

lemma copies_target: "copies_as cp X \<Longrightarrow> copies_as (Target_DeepCopyInto cp) (target_view X)"
proof -
  assume X: "copies_as cp X"
  have "Target_DeepCopyInto cp = copy_struct tg_PodSelector (\<lambda>p s. s\<lparr>tg_PodSelector := p\<rparr>)
      (copy_ptr SelectorC des_selector (PodSelector_DeepCopyInto cp))"
    by (intro ext) (simp add: Target_DeepCopyInto_def copy_struct_def)
  then show ?thesis
    unfolding target_view_def by (auto simp: des_defs intro!: copies_struct copies_ptr copies_selector X)
qed

lemma copies_spec: "copies_as cp X \<Longrightarrow> copies_as (Spec_DeepCopyInto cp) (spec_view X)"
proof -
  assume X: "copies_as cp X"
  have "Spec_DeepCopyInto cp = copy_struct (\<lambda>s. (sc_Target s, sc_ActiveDeadlineSeconds s))
      (\<lambda>(t, d) s. s\<lparr>sc_Target := t, sc_ActiveDeadlineSeconds := d\<rparr>)
      (copy_pair (Target_DeepCopyInto cp) (copy_ptr Int64C des_int64 copy_int64))"
    by (intro ext) (simp add: Spec_DeepCopyInto_def copy_struct_def copy_pair_def split: prod.split)
  then show ?thesis
    unfolding spec_view_def
    by (auto simp: des_defs intro!: copies_struct copies_pair copies_ptr copies_target X int64.copier_axioms)
qed

lemma copies_status: "copies_as cp X \<Longrightarrow> copies_as (Status_DeepCopyInto cp) (status_view X)"
proof -
  assume X: "copies_as cp X"
  have "Status_DeepCopyInto cp = copy_struct su_Conditions (\<lambda>p s. s\<lparr>su_Conditions := p\<rparr>)
      (copy_ptr ExternalC des_external (copy_list cp))"
    by (intro ext) (simp add: Status_DeepCopyInto_def copy_struct_def)
  then show ?thesis
    unfolding status_view_def by (auto simp: des_defs intro!: copies_struct copies_ptr copies_list X)
qed

lemma copies_tunnel: "copies_as cp X \<Longrightarrow> copies_as (Tunnel_DeepCopyInto cp) (tunnel_view X)"
proof -
  assume X: "copies_as cp X"
  have "Tunnel_DeepCopyInto cp = copy_struct (\<lambda>t. (tn_ObjectMeta t, tn_Spec t, tn_Status t))
      (\<lambda>(o', sp, st) t. t\<lparr>tn_ObjectMeta := o', tn_Spec := sp, tn_Status := st\<rparr>)
      (copy_pair cp (copy_pair (Spec_DeepCopyInto cp) (Status_DeepCopyInto cp)))"
    by (intro ext) (simp add: Tunnel_DeepCopyInto_def copy_struct_def copy_pair_def split: prod.split)
  then show ?thesis
    unfolding tunnel_view_def by (auto intro!: copies_struct copies_pair copies_spec copies_status X)
qed

lemma copies_tunnelList: "copies_as cp X \<Longrightarrow> copies_as (TunnelList_DeepCopyInto cp) (tunnelList_view X)"
proof -
  assume X: "copies_as cp X"
  have "TunnelList_DeepCopyInto cp = copy_struct (\<lambda>l. (tl_ListMeta l, tl_Items l))
      (\<lambda>(lm, is) l. l\<lparr>tl_ListMeta := lm, tl_Items := is\<rparr>)
      (copy_pair cp (copy_ptr TunnelsC des_tunnels (copy_list (Tunnel_DeepCopyInto cp))))"
    by (intro ext) (simp add: TunnelList_DeepCopyInto_def copy_struct_def copy_pair_def split: prod.split)
  then show ?thesis
    unfolding tunnelList_view_def
    by (auto simp: des_defs intro!: copies_struct copies_pair copies_ptr copies_list copies_tunnel X)
qed

section \<open>Copies of tunnels\<close>

lemma copies_pointers:
  assumes "copies_as cp X"
  shows "copies_as (Tunnel_DeepCopy cp) (ptr_view des_tunnel (tunnel_view X))"
    and "copies_as (TunnelList_DeepCopy cp) (ptr_view des_tunnelList (tunnelList_view X))"
    and "copies_as (Spec_DeepCopy cp) (ptr_view des_spec (spec_view X))"
    and "copies_as (Status_DeepCopy cp) (ptr_view des_status (status_view X))"
    and "copies_as (Target_DeepCopy cp) (ptr_view des_target (target_view X))"
    and "copies_as (PodSelector_DeepCopy cp) (ptr_view des_selector (selector_view X))"
  unfolding Tunnel_DeepCopy_def TunnelList_DeepCopy_def Spec_DeepCopy_def Status_DeepCopy_def
    Target_DeepCopy_def PodSelector_DeepCopy_def
  by (rule copies_ptr, rule copies_tunnel copies_tunnelList copies_spec copies_status copies_target copies_selector,
      rule assms, simp add: des_defs)+

lemma DeepCopyObject_eq:
  "Tunnel_DeepCopyObject cp = Tunnel_DeepCopy cp" "TunnelList_DeepCopyObject cp = TunnelList_DeepCopy cp"
  by (intro ext, simp add: Tunnel_DeepCopyObject_def TunnelList_DeepCopyObject_def split: prod.split option.split)+

text \<open>
  C6: A copied tunnel is independent of its original. Suppose that the copying functions of
  apimachinery keep their contract. The copy of a tunnel without dangling pointers reads like
  the original at the moment of the copy, field by field through every pointer, slice and map,
  and original and copy have no memory in common: whatever is then written into any cell of the
  one, the other still reads the same. In particular the base of a status patch, which the
  reconciler copies before it changes the tunnel, keeps the state that the API server returned.
\<close>

theorem DeepCopy_separate:
  fixes X :: "('x, 'x, 'v) view"
  assumes "copier cp (ok_of X) (val_of X) (foot_of X)" and "mem_ok m"
  defines "V \<equiv> ptr_view des_tunnel (tunnel_view X)"
  assumes "ok_of V (Some a) m" and "Tunnel_DeepCopy cp (Some a) m = (p, m')"
  shows "p \<noteq> None \<and> extends m m' \<and> ok_of V p m' \<and> val_of V p m' = val_of V (Some a) m \<and>
    foot_of V (Some a) m' \<inter> foot_of V p m' = {} \<and>
    (\<forall>c v. c \<in> foot_of V p m' \<longrightarrow> val_of V (Some a) (m'\<lparr>cells := (cells m')(c \<mapsto> v)\<rparr>) = val_of V (Some a) m) \<and>
    (\<forall>c v. c \<in> foot_of V (Some a) m' \<longrightarrow> val_of V p (m'\<lparr>cells := (cells m')(c \<mapsto> v)\<rparr>) = val_of V (Some a) m)"
proof -
  have V: "copies_as (Tunnel_DeepCopy cp) V" unfolding V_def by (rule copies_pointers(1) [OF assms(1)])
  have "p \<noteq> None"
    using assms(5) by (auto simp: Tunnel_DeepCopy_def copy_ptr_def split: option.splits prod.splits)
  with copier.copies [OF V assms(2,4,5)] copier.separate [OF V assms(2,4,5)] show ?thesis by blast
qed

text \<open>A label requirement: a key, and a slice of strings that is copied with it.\<close>

definition copy_requirement :: "string \<times> nat option \<Rightarrow> (string \<times> nat option) mem \<Rightarrow> (string \<times> nat option) \<times> (string \<times> nat option) mem" where
  "copy_requirement = copy_struct snd (\<lambda>q r. (fst r, q)) (copy_ptr ExternalC des_external Pair)"

definition requirement_view :: "(string \<times> nat option, string \<times> nat option, string \<times> string list option) view" where
  "requirement_view = struct_view snd fst (ptr_view des_external
     \<lparr>ok_of = (\<lambda>_ _. True), val_of = (\<lambda>xs _. map fst xs), foot_of = (\<lambda>_ _. {})\<rparr>)"

interpretation requirement: copier copy_requirement "ok_of requirement_view" "val_of requirement_view" "foot_of requirement_view"
proof -
  have "copies_as Pair \<lparr>ok_of = (\<lambda>_ _. True), val_of = (\<lambda>xs _. map fst xs), foot_of = (\<lambda>_ _. {})\<rparr>"
    by unfold_locales auto
  then show "copies_as copy_requirement requirement_view"
    unfolding copy_requirement_def requirement_view_def
    by (intro copies_struct copies_ptr) (simp_all add: des_defs)
qed

definition ex_mem :: "(string \<times> nat option) mem" where
  "ex_mem = \<lparr>cells = [0 \<mapsto> TunnelC \<lparr>tn_TypeMeta = (''nais.io/v1alpha1'', ''Tunnel''), tn_ObjectMeta = (''a'', None),
       tn_Spec = \<lparr>sc_TeamSlug = ''team'', sc_Target = \<lparr>tg_Host = ''db'', tg_Port = 5432, tg_ResolvedIP = '''', tg_PodSelector = Some 1\<rparr>,
         sc_ClientPublicKey = ''ck'', sc_ActiveDeadlineSeconds = Some 5\<rparr>,
       tn_Status = \<lparr>su_Fields = \<lparr>Phase = ''Pending'', GatewayPublicKey = '''', ForwarderPort = 0, ForwarderEndpoint = '''',
         GatewayPodName = '''', GatewayPodUID = '''', GatewayPodIP = '''', MappingRevision = 0, Message = ''''\<rparr>, su_Conditions = None\<rparr>\<rparr>,
     1 \<mapsto> SelectorC \<lparr>sl_MatchLabels = Some 2, sl_MatchExpressions = Some 3\<rparr>, 2 \<mapsto> LabelsC [(''app'', ''db'')],
     3 \<mapsto> ExternalC [(''tier'', Some 4)], 4 \<mapsto> ExternalC [(''gold'', None)], 5 \<mapsto> Int64C 3600], brk = 6\<rparr>"

lemmas view_defs = tunnel_view_def spec_view_def target_view_def selector_view_def status_view_def
  struct_view_def pair_view_def ptr_view_def list_view_def labels_view_def int64_view_def requirement_view_def

theorem DeepCopy_separate_witness:
  "\<exists>b m'. Tunnel_DeepCopy copy_requirement (Some 0) ex_mem = (Some b, m') \<and>
     val_of (ptr_view des_tunnel (tunnel_view requirement_view)) (Some b) (m'\<lparr>cells := (cells m')(2 \<mapsto> LabelsC [])\<rparr>) =
     val_of (ptr_view des_tunnel (tunnel_view requirement_view)) (Some 0) ex_mem"
proof -
  let ?V = "ptr_view des_tunnel (tunnel_view requirement_view)"
  have m: "mem_ok ex_mem" by (simp add: mem_ok_def ex_mem_def)
  have o: "ok_of ?V (Some 0) ex_mem"
    by (simp add: view_defs ok_ptr_def ok_pair_def ok_list_def des_defs ex_mem_def)
  obtain p m' where c: "Tunnel_DeepCopy copy_requirement (Some 0) ex_mem = (p, m')" by force
  note d = DeepCopy_separate [OF requirement.copier_axioms m o c]
  have "foot_of ?V (Some 0) m' = foot_of ?V (Some 0) ex_mem"
    using copier.kept [OF copies_pointers(1) [OF requirement.copier_axioms] m o] d by blast
  moreover have "2 \<in> foot_of ?V (Some 0) ex_mem"
    by (simp add: view_defs foot_ptr_def foot_pair_def foot_list_def des_defs ex_mem_def)
  ultimately show ?thesis using d c by (cases p) auto
qed

end
