(* ===== verification/Spec2Isabelle.thy ===== *)
theory Spec2Isabelle
  imports Tunnel_System Listener Server_Start Deep_Copy
begin

text \<open>
  Verification of the tunnel operator.

  \<^bold>\<open>The program.\<close> A user creates a \<open>Tunnel\<close> resource to reach one host and port of a cluster
  through WireGuard. The \<^emph>\<open>operator\<close> (\<open>cmd/main.go\<close>) reconciles it: it allocates a UDP port, starts
  a gateway pod with a network policy, records port, pod and a mapping revision in the status,
  and publishes the mapping. The \<^emph>\<open>forwarders\<close> (\<open>cmd/forwarder\<close>) fetch a snapshot of all mappings
  and stream updates over gRPC, bind the ports, relay datagrams between clients and gateways,
  and acknowledge each revision. The tunnel becomes Ready when the gateway has published its
  key and every connected forwarder has acknowledged. The \<^emph>\<open>gateway\<close> (\<open>cmd/gateway\<close>) ends the
  WireGuard tunnel and proxies TCP to the target.

  \<^bold>\<open>Theories.\<close> Each lists its definitions in the order of the source file.

  \<^item> \<open>Prelude\<close>, \<open>Go_Strings\<close>: machine integers (an \<open>int\<close> with \<open>i32\<close> and \<open>i64\<close> for the wrap-around),
    Go maps (association lists \<open>gomap\<close> where the code ranges over them), loops that stop at the
    first error (\<open>for_each\<close>), state machines (\<open>reach\<close> and the locale \<open>state_machine\<close>); of the Go
    library \<open>strconv\<close>, \<open>strings.TrimSpace\<close>, \<open>strings.ToLower\<close> and \<open>net.JoinHostPort\<close>.
  \<^item> \<open>Port_Allocator\<close> (\<open>pkg/portalloc/allocator.go\<close>): \<open>New\<close>, \<open>Allocate\<close>, \<open>Release\<close>, \<open>GetPort\<close>,
    \<open>IsAllocated\<close>, \<open>LoadExisting\<close>; their contract is the locale \<open>port_registry\<close>, on which the
    operator's properties rest. The lemmas show exclusive ports in the range, total correctness
    of \<open>Allocate\<close> for every output of the random generator, and that it is the cyclic first-free
    search.
  \<^item> \<open>Tunnel_API\<close>, \<open>Deep_Copy\<close> (\<open>api/v1alpha1\<close>): the resource, the Kubernetes objects, and the
    client as a record of operations on an abstract cluster; the generated copying functions on
    a memory of addresses, with the contract \<open>copier\<close> that is closed under pointers, slices,
    pairs and structs. \<open>Mem_Cluster\<close> is an executable cluster for the witnesses only.
  \<^item> \<open>Proto\<close>, \<open>Forwarder_Server\<close> (\<open>internal/grpc/server.go\<close>): messages and getters; the
    configuration service with its streams as processes and a bounded queue each; the locale
    \<open>ack_server\<close> is what reconciler and forwarders rely on. \<open>Server_Start\<close> has \<open>Start\<close> of this
    server and of the health server.
  \<^item> \<open>Gateway_Resources\<close>, \<open>Tunnel_Controller\<close>, \<open>Controller_Props\<close>
    (\<open>internal/controller/tunnel_controller.go\<close>): the pod, network policy and validation;
    \<open>Reconcile\<close> with all handlers as functions of the operator's state (\<open>operator\<close>), an error for
    every early return; and their properties, under \<open>tunnel_store\<close>, the documented behaviour of
    the API server.
  \<^item> \<open>Operator_Main\<close>, \<open>Process_Env\<close> (\<open>cmd/main.go\<close> and the environment of all programs): the
    configuration, restoring of ports, and \<open>main\<close> with every exit.
  \<^item> \<open>Session_Map\<close>, \<open>Udp_Proxy\<close>, \<open>Proxy_Props\<close>, \<open>Listener\<close> (\<open>pkg/forwarder/session.go\<close>, \<open>proxy.go\<close>):
    the session map (locale \<open>session_table\<close>), the table of listeners and its refinement of a
    table of routes (locale \<open>route_table\<close>), and the goroutines of one port as an interleaving
    step relation.
  \<^item> \<open>Config_Client\<close>, \<open>Forwarder_Main\<close> (\<open>pkg/forwarder/grpc_client.go\<close>, \<open>health.go\<close>,
    \<open>cmd/forwarder/main.go\<close>): the client with its reconnecting loop, parametric in its callbacks
    (locale \<open>watch_callbacks\<close>), and \<open>run\<close> from start-up to draining.
  \<^item> \<open>Wireguard\<close>, \<open>Gateway\<close>, \<open>Gateway_Env\<close> (\<open>pkg/wireguard\<close>, \<open>cmd/gateway\<close>): the device with the text
    of its configuration, the TCP proxy with its connections and the peer timeout, and the
    environment that the controller writes read back by the gateway.
  \<^item> \<open>Tunnel_System\<close> and this theory: operator, streams and any number of forwarder processes
    together, and the properties that span them.

  \<^bold>\<open>How code becomes definitions.\<close> Methods that hold a mutex for all of their body are one step.
  A goroutine that blocks is a state machine: a function from an event and a state to the next
  state, \<^const>\<open>None\<close> if the event is not possible; the network, the clock and the scheduler are
  the choice of events, so that statements about reachable states hold for every interleaving.
  What third-party code answers is an argument (the Kubernetes client, binding of ports, remote
  calls, controller-runtime, wireguard-go, wgtypes); hypotheses about it are \<open>tunnel_store\<close>,
  \<open>ack_transport\<close> and \<open>copier\<close>, and each property that has one has a witness with a concrete
  instance.

  \<^bold>\<open>Bounds and termination.\<close> No definition uses fuel: loops over lists are structural, the search
  of the allocator runs over the offsets of its range, and loops that may run for ever are step
  relations, about which it is proved that they can always go on or that they end
  (\<open>watch_reconnects\<close>, \<open>closed_session_ends\<close>, \<open>health_start_returns\<close>). The start-up loop of the
  forwarder is a function of the rounds it is given, and ends exactly with the first that
  decides it. The revision counter is a 64-bit integer: that it identifies mappings is proved
  for fewer than \<open>2^63\<close> changes.

  \<^bold>\<open>Not modelled.\<close> Logging; the registration of metrics, types and watches (\<open>metrics.go\<close>,
  \<open>groupversion_info.go\<close>, \<open>SetupWithManager\<close>), which only call libraries; the generated gRPC stubs
  and protobuf reflection; the metrics and status HTTP servers, of which the handlers are
  modelled; \<open>spike_vip_binding.go\<close>, which no build includes; charts and manifests. In
  \<open>Tunnel_System\<close> one update or snapshot is a single step of a forwarder, in which the streams of
  the server may move on before each acknowledgement; snapshots there have distinct ports, as
  the lemma \<open>duplicate_port_acked\<close> shows to be necessary.
\<close>

section \<open>From the stored tunnel to the forwarders\<close>



text \<open>
  C11: With a port range in the environment, every port that the operator records or hands out,
  in any state of the system, lies in that range and belongs to one tunnel only; so with a
  range that ends at 65535 or below it is a UDP port. A request fails only when the range is
  used up. The range survives the decimal text of the environment and restarts of the operator.
\<close>

theorem ports_in_range:
  assumes "reach (system_init env r reader) (system_step env r reader os) y"
    and "env ''FORWARDER_PORT_RANGE_MIN'' = Itoa lo" "env ''FORWARDER_PORT_RANGE_MAX'' = Itoa hi"
    and "0 < lo" "lo \<le> hi" "in_int32 hi"
  shows "\<exists>al. op_PortAllocator (sy_op y) = Some al \<and>
    (\<forall>k p. GetPort al k = Some p \<longrightarrow> lo \<le> p \<and> p \<le> hi \<and> (\<forall>k'. GetPort al k' = Some p \<longrightarrow> k' = k)) \<and>
    (\<forall>draw k. (\<exists>p. fst (Allocate draw k al) = Inr p \<and> lo \<le> p \<and> p \<le> hi) \<or>
       fst (Allocate draw k al) = Inl errRangeExhausted \<and> (\<forall>p. lo \<le> p \<longrightarrow> p \<le> hi \<longrightarrow> IsAllocated al p))"
proof -
  obtain al where al: "op_PortAllocator (sy_op y) = Some al" "alloc_inv al" "minPort al = lo" "maxPort al = hi"
    using whole.reach_inv [OF assms(1)] configured_allocator [OF assms(2-6)] assms(4,5)
    by (auto simp: system_inv_def allocator_ok_def New_def Let_def)
  have "(\<exists>p. fst (Allocate draw k al) = Inr p \<and> lo \<le> p \<and> p \<le> hi) \<or>
       fst (Allocate draw k al) = Inl errRangeExhausted \<and> (\<forall>p. lo \<le> p \<longrightarrow> p \<le> hi \<longrightarrow> IsAllocated al p)" for draw k
  proof -
    obtain x b where x: "Allocate draw k al = (x, b)" by force
    show ?thesis
    proof (cases x)
      case (Inl e)
      with allocator.alloc_fail [OF al(2)] x al(3,4) show ?thesis by auto
    next
      case (Inr p)
      with allocator.alloc_records [OF al(2)] x al(3,4) show ?thesis by auto
    qed
  qed
  with al allocator.port_range [OF al(2)] allocator.port_inj [OF al(2)] show ?thesis by blast
qed

definition ports_env :: environment where
  "ports_env n = (if n = ''FORWARDER_PORT_RANGE_MIN'' then ''5'' else if n = ''FORWARDER_PORT_RANGE_MAX'' then ''6'' else '''')"

theorem ports_in_range_witness:
  "\<exists>r s al p. operator_setup ports_env mem_client mem_client ex_http ex_world = (r, s) \<and> op_PortAllocator s = Some al \<and>
     fst (Allocate 7 ''ns/b'' al) = Inr p \<and> 5 \<le> p \<and> p \<le> 6"
proof -
  obtain r s where rs: "operator_setup ports_env mem_client mem_client ex_http ex_world = (r, s)" by force
  have reach: "reach (system_init ports_env r mem_client) (system_step ports_env r mem_client ex_os) (fresh_system s)"
    by (rule reach_init) (rule fresh_init [OF rs])
  have list: "kListTunnels mem_client ex_world = (Inr [ex_tunnel], ex_world)"
    by (simp add: ex_defs)
  have e: "ports_env ''FORWARDER_PORT_RANGE_MIN'' = Itoa 5" "ports_env ''FORWARDER_PORT_RANGE_MAX'' = Itoa 6"
    by (simp_all add: ports_env_def)
  have r: "(0::int) < 5" "(5::int) \<le> 6" "in_int32 6" by (simp_all add: in_int32_def)
  have "oc_allocator (main_config ports_env) = New 5 6"
    using configured_allocator [OF e r] .
  then have "op_PortAllocator s = Some (load_tunnel ex_tunnel (New 5 6))"
    using operator_setup_allocator(1) [OF rs] list by (simp add: loadExistingAllocations_def)
  moreover have "\<not> IsAllocated (load_tunnel ex_tunnel (New 5 6)) 6" by code_simp
  ultimately show ?thesis
    using ports_in_range [OF reach e r] rs r by (fastforce simp: fresh_system_def)
qed

end
